theory Spec2Isabelle
  imports Complex_Main "HOL-Library.Word"
begin

unbundle bit_operations_syntax

section \<open>The Bloom filter of keyhunt (bloom/bloom.cpp)\<close>

text \<open>
  The C++ source keeps the filter in a \<^verbatim>\<open>struct bloom\<close> whose bit buffer \<^verbatim>\<open>bf\<close> lives on
  the heap. The embedding passes the struct by value, keeps the heap as an explicit table
  of allocated blocks, and lets a read outside a block and a division by zero, which the
  C standard leaves undefined, end in a \<open>fault\<close> instead of a value, as does a call of
  \<^verbatim>\<open>exit\<close>.
\<close>

subsection \<open>Machine types, faults and the heap\<close>

type_synonym u8 = "8 word"
type_synonym u16 = "16 word"
type_synonym u64 = "64 word"

text \<open>An address is a natural number; \<open>0\<close> is \<^verbatim>\<open>NULL\<close>.\<close>

type_synonym addr = nat

datatype fault = DivideByZero | InvalidAccess | ProcessExit

text \<open>
  The heap is a table of blocks: address \<open>p > 0\<close> names slot \<open>p - 1\<close>; a slot holds the
  bytes of a live allocation or \<open>None\<close> once it is freed.
\<close>

type_synonym heap = "u8 list option list"

definition block :: "heap \<Rightarrow> addr \<Rightarrow> u8 list option" where
  "block h p = (if p = 0 \<or> length h < p then None else h ! (p - 1))"

definition store_block :: "heap \<Rightarrow> addr \<Rightarrow> u8 list \<Rightarrow> heap" where
  "store_block h p bs = h[p - 1 := Some bs]"

definition load_byte :: "heap \<Rightarrow> addr \<Rightarrow> nat \<Rightarrow> u8 option" where
  "load_byte h p n =
     (case block h p of
        None \<Rightarrow> None
      | Some bs \<Rightarrow> if n < length bs then Some (bs ! n) else None)"

definition store_byte :: "heap \<Rightarrow> addr \<Rightarrow> nat \<Rightarrow> u8 \<Rightarrow> heap" where
  "store_byte h p n v =
     (case block h p of
        None \<Rightarrow> h
      | Some bs \<Rightarrow> store_block h p (bs[n := v]))"

text \<open>
  \<^verbatim>\<open>malloc\<close> and \<^verbatim>\<open>calloc\<close> hand out the next slot of the table. Whether a request of
  \<open>n\<close> bytes succeeds is decided by the environment (\<open>can_alloc\<close>); the first contents
  of the block are given by the caller of \<open>alloc\<close>. A failed request returns \<^verbatim>\<open>NULL\<close>.
\<close>

definition alloc :: "(nat \<Rightarrow> bool) \<Rightarrow> heap \<Rightarrow> u8 list \<Rightarrow> addr \<times> heap" where
  "alloc can_alloc h bs =
     (if can_alloc (length bs) then (Suc (length h), h @ [Some bs]) else (0, h))"

definition free_block :: "heap \<Rightarrow> addr \<Rightarrow> heap" where
  "free_block h p = (if p = 0 \<or> length h < p then h else h[p - 1 := None])"

text \<open>The live blocks of a heap, with their addresses.\<close>

definition live_blocks :: "heap \<Rightarrow> addr list" where
  "live_blocks h = filter (\<lambda>p. block h p \<noteq> None) [1..<Suc (length h)]"

subsection \<open>The filter structure\<close>

text \<open>
  Modelled from the spec: \<^verbatim>\<open>struct bloom\<close> is declared in \<^verbatim>\<open>bloom.h\<close>, which is not part of
  the sources at hand. The fields are those the code reads and writes, with the widths
  its casts and loop counters show (\<^verbatim>\<open>uint64_t\<close> entries, bits and bytes, \<^verbatim>\<open>uint8_t\<close> hashes);
  \<open>ready\<close> is the boolean of the data model. The type \<open>'f\<close> stands for the floating-point
  type of \<open>error\<close> and \<open>bpe\<close>. The mutex only serialises inserts and has no sequential
  effect, so it is left out.
\<close>

record 'f bloom =
  entries :: u64
  error :: 'f
  bits :: u64
  bytes :: u64
  hashes :: u8
  bpe :: 'f
  bf :: addr
  ready :: bool
  major :: nat
  minor :: nat

text \<open>The hash primitive \<^verbatim>\<open>XXH64(buffer, len, seed)\<close> is external; it is a parameter.\<close>

type_synonym hash64 = "u8 list \<Rightarrow> u64 \<Rightarrow> u64"

subsection \<open>Testing and setting bits\<close>

definition test_bit_set_bit :: "heap \<Rightarrow> addr \<Rightarrow> u64 \<Rightarrow> bool \<Rightarrow> fault + (int \<times> heap)" where
  "test_bit_set_bit h buf bit' set_bit' =
     (let byte = unat (drop_bit 3 bit') in
      case load_byte h buf byte of
        None \<Rightarrow> Inl InvalidAccess
      | Some c \<Rightarrow>
          let mask = (push_bit (unat (bit' mod 8)) 1 :: u8) in
          if c AND mask \<noteq> 0 then Inr (1, h)
          else if set_bit' then Inr (0, store_byte h buf byte (c OR mask))
          else Inr (0, h))"

text \<open>Line 61 of the source: \<^verbatim>\<open>x = (a + b * i) % bloom->bits\<close>, in 64-bit unsigned arithmetic.\<close>

definition bit_index :: "u64 \<Rightarrow> u64 \<Rightarrow> u8 \<Rightarrow> u64 \<Rightarrow> u64" where
  "bit_index a b i nbits = (a + b * ucast i) mod nbits"

function check_add_loop ::
  "'f bloom \<Rightarrow> u64 \<Rightarrow> u64 \<Rightarrow> bool \<Rightarrow> heap \<Rightarrow> u8 \<Rightarrow> u8 \<Rightarrow> fault + (int \<times> heap)" where
  "check_add_loop bloom a b add h hits i =
     (if i < hashes bloom then
        (if bits bloom = 0 then Inl DivideByZero
         else
           case test_bit_set_bit h (bf bloom) (bit_index a b i (bits bloom)) add of
             Inl f \<Rightarrow> Inl f
           | Inr (r, h') \<Rightarrow>
               if r \<noteq> 0 then check_add_loop bloom a b add h' (hits + 1) (i + 1)
               else if \<not> add then Inr (0, h')
               else check_add_loop bloom a b add h' hits (i + 1))
      else if hits = hashes bloom then Inr (1, h)
      else Inr (0, h))"
  by pat_completeness auto

termination check_add_loop
proof -
  have step: "unat (hashes bloom) - unat (i + 1) < unat (hashes bloom) - unat i"
    if "i < hashes bloom" for bloom :: "'f bloom" and i :: u8
  proof -
    from that have "unat i < unat (hashes bloom)" by (simp add: word_less_nat_alt)
    moreover have "unat (hashes bloom) < 2 ^ 8" using unsigned_less [of "hashes bloom"] by simp
    ultimately show ?thesis by (simp add: unat_word_ariths)
  qed
  show ?thesis
    by (relation "measure (\<lambda>(bloom, a, b, add, h, hits, i). unat (hashes bloom) - unat i)")
       (auto intro: step)
qed

declare check_add_loop.simps [simp del]

definition bloom_check_add ::
  "hash64 \<Rightarrow> 'f bloom \<Rightarrow> heap \<Rightarrow> u8 list \<Rightarrow> bool \<Rightarrow> fault + (int \<times> heap)" where
  "bloom_check_add XXH64 bloom h buffer add =
     (if \<not> ready bloom then Inr (- 1, h)
      else
        let a = XXH64 buffer 0x59f2815b16f81798;
            b = XXH64 buffer a
        in check_add_loop bloom a b add h 0 0)"

definition bloom_check :: "hash64 \<Rightarrow> 'f bloom \<Rightarrow> heap \<Rightarrow> u8 list \<Rightarrow> fault + (int \<times> heap)" where
  "bloom_check XXH64 bloom h buffer = bloom_check_add XXH64 bloom h buffer False"

definition bloom_add :: "hash64 \<Rightarrow> 'f bloom \<Rightarrow> heap \<Rightarrow> u8 list \<Rightarrow> fault + (int \<times> heap)" where
  "bloom_add XXH64 bloom h buffer = bloom_check_add XXH64 bloom h buffer True"


subsection \<open>Construction, release and reset\<close>

text \<open>The version that a new filter is tagged with.\<close>

definition BLOOM_VERSION_MAJOR :: nat where
  "BLOOM_VERSION_MAJOR = 2"

definition BLOOM_VERSION_MINOR :: nat where
  "BLOOM_VERSION_MINOR = 1"

text \<open>\<^verbatim>\<open>memset(bloom, 0, sizeof(struct bloom))\<close>: every field is zero, \<open>bf\<close> is \<^verbatim>\<open>NULL\<close>.\<close>

definition zero_bloom :: "'f::zero bloom" where
  "zero_bloom = \<lparr>entries = 0, error = 0, bits = 0, bytes = 0, hashes = 0, bpe = 0,
     bf = 0, ready = False, major = 0, minor = 0\<rparr>"

text \<open>
  \<open>bloom_init2\<close> and \<open>bloom_dummy\<close> size the filter in floating-point arithmetic: in
  \<^verbatim>\<open>long double\<close> the logarithm of \<open>error\<close>, the quotient and the product with the number of
  entries; in \<^verbatim>\<open>double\<close> the two decimal constants, the field \<open>bpe\<close> (\<open>bloom_print\<close> formats it
  with \<^verbatim>\<open>%f\<close> and \<open>error\<close> with \<^verbatim>\<open>%Lf\<close>) and the product under \<^verbatim>\<open>ceil\<close>. What these operations
  round to, and what a conversion to an unsigned integer gives when the value does not
  fit, depends on the compiler and the machine. The operations are therefore a parameter
  of the two functions. A floating-point value is read as the real number it stands for,
  so the comparisons of \<open>error\<close> with 0 and 1 are exact.

  The fields: \<open>d_lit\<close> is the \<^verbatim>\<open>double\<close> that a decimal constant denotes, \<open>ld_log\<close>, \<open>ld_div\<close> and
  \<open>ld_mul\<close> are \<^verbatim>\<open>log\<close>, \<^verbatim>\<open>/\<close> and \<^verbatim>\<open>*\<close> on \<^verbatim>\<open>long double\<close>, \<open>ld_of_u64\<close> and \<open>ld_to_u64\<close> the
  conversions from and to \<^verbatim>\<open>uint64_t\<close>, \<open>ld_to_d\<close> the conversion to \<^verbatim>\<open>double\<close>, \<open>d_mul\<close> and
  \<open>d_ceil\<close> are \<^verbatim>\<open>*\<close> and \<^verbatim>\<open>ceil\<close> on \<^verbatim>\<open>double\<close>, and \<open>d_to_u8\<close> is the conversion to \<^verbatim>\<open>uint8_t\<close>.
\<close>

record float_ops =
  d_lit :: "real \<Rightarrow> real"
  ld_log :: "real \<Rightarrow> real"
  ld_div :: "real \<Rightarrow> real \<Rightarrow> real"
  ld_mul :: "real \<Rightarrow> real \<Rightarrow> real"
  ld_of_u64 :: "u64 \<Rightarrow> real"
  ld_to_u64 :: "real \<Rightarrow> u64"
  ld_to_d :: "real \<Rightarrow> real"
  d_mul :: "real \<Rightarrow> real \<Rightarrow> real"
  d_ceil :: "real \<Rightarrow> real"
  d_to_u8 :: "real \<Rightarrow> u8"

definition bloom_init2 ::
  "float_ops \<Rightarrow> (nat \<Rightarrow> bool) \<Rightarrow> heap \<Rightarrow> u64 \<Rightarrow> real \<Rightarrow> int \<times> real bloom \<times> heap" where
  "bloom_init2 F can_alloc h entries' error' =
     (let bloom = zero_bloom in
      if entries' < 1000 \<or> error' \<le> 0 \<or> error' \<ge> 1 then (1, bloom, h)
      else
        let bloom = bloom\<lparr>entries := entries', error := error'\<rparr>;
            num = - ld_log F (error bloom);
            denom = d_lit F 0.480453013918201;
            bloom = bloom\<lparr>bpe := ld_to_d F (ld_div F num denom)\<rparr>;
            dentries = ld_of_u64 F entries';
            allbits = ld_mul F dentries (bpe bloom);
            bloom = bloom\<lparr>bits := ld_to_u64 F allbits\<rparr>;
            bloom = bloom\<lparr>bytes := bits bloom div 8\<rparr>;
            bloom = (if bits bloom mod 8 \<noteq> 0 then bloom\<lparr>bytes := bytes bloom + 1\<rparr>
                     else bloom);
            bloom = bloom\<lparr>hashes :=
                      d_to_u8 F (d_ceil F (d_mul F (d_lit F 0.693147180559945) (bpe bloom)))\<rparr>;
            (p, h') = alloc can_alloc h (replicate (unat (bytes bloom)) 0);
            bloom = bloom\<lparr>bf := p\<rparr>
        in if p = 0 then (1, bloom, h')
           else (0, bloom\<lparr>ready := True, major := BLOOM_VERSION_MAJOR,
                   minor := BLOOM_VERSION_MINOR\<rparr>, h'))"

text \<open>\<open>bloom_init\<close> is the deprecated name of \<open>bloom_init2\<close>.\<close>

definition bloom_init ::
  "float_ops \<Rightarrow> (nat \<Rightarrow> bool) \<Rightarrow> heap \<Rightarrow> u64 \<Rightarrow> real \<Rightarrow> int \<times> real bloom \<times> heap" where
  "bloom_init F can_alloc h entries' error' = bloom_init2 F can_alloc h entries' error'"

text \<open>\<open>bloom_dummy\<close> derives the same parameters and allocates nothing.\<close>

definition bloom_dummy :: "float_ops \<Rightarrow> u64 \<Rightarrow> real \<Rightarrow> int \<times> real bloom" where
  "bloom_dummy F entries' error' =
     (let bloom = zero_bloom in
      if entries' < 1000 \<or> error' \<le> 0 \<or> error' \<ge> 1 then (1, bloom)
      else
        let bloom = bloom\<lparr>entries := entries', error := error'\<rparr>;
            num = - ld_log F (error bloom);
            denom = d_lit F 0.480453013918201;
            bloom = bloom\<lparr>bpe := ld_to_d F (ld_div F num denom)\<rparr>;
            dentries = ld_of_u64 F entries';
            allbits = ld_mul F dentries (bpe bloom);
            bloom = bloom\<lparr>bits := ld_to_u64 F allbits\<rparr>;
            bloom = bloom\<lparr>bytes := bits bloom div 8\<rparr>;
            bloom = (if bits bloom mod 8 \<noteq> 0 then bloom\<lparr>bytes := bytes bloom + 1\<rparr>
                     else bloom);
            bloom = bloom\<lparr>hashes :=
                      d_to_u8 F (d_ceil F (d_mul F (d_lit F 0.693147180559945) (bpe bloom)))\<rparr>
        in (0, bloom))"

definition bloom_free :: "'f bloom \<Rightarrow> heap \<Rightarrow> 'f bloom \<times> heap" where
  "bloom_free bloom h =
     (let h' = (if ready bloom then free_block h (bf bloom) else h)
      in (bloom\<lparr>ready := False\<rparr>, h'))"



subsection \<open>Files\<close>

text \<open>
  A file system maps a path to the bytes of the file. A stream opened for reading is the
  list of bytes not yet read; \<open>fread\<close> returns the bytes it got (fewer than asked for at the
  end of the file) and the rest of the stream. This is \<^verbatim>\<open>fread\<close> with element size 1, and
  \<^verbatim>\<open>read\<close> on a regular file.
\<close>

type_synonym files = "string \<rightharpoonup> u8 list"

definition fread :: "u8 list \<Rightarrow> nat \<Rightarrow> u8 list \<times> u8 list" where
  "fread stream n = (take n stream, drop n stream)"

text \<open>
  Writing. The environment gives every path a capacity in bytes. \<open>write_fd\<close> is \<^verbatim>\<open>write\<close> on a
  regular file at a position: it stores as many of the bytes as fit below the capacity and
  returns their number (the caller moves the position on by it).
\<close>

definition file_bytes :: "files \<Rightarrow> string \<Rightarrow> u8 list" where
  "file_bytes fs path = (case fs path of None \<Rightarrow> [] | Some c \<Rightarrow> c)"

definition write_fd ::
  "(string \<Rightarrow> nat) \<Rightarrow> files \<Rightarrow> string \<Rightarrow> nat \<Rightarrow> u8 list \<Rightarrow> nat \<times> files" where
  "write_fd capacity fs path pos bs =
     (let content = file_bytes fs path;
          n = min (length bs) (capacity path - pos)
      in (n, fs(path \<mapsto> take pos content @ take n bs @ drop (pos + n) content)))"

text \<open>
  The streams of \<^verbatim>\<open>stdio\<close> may hold bytes back in a buffer. A stream is a path, the position
  of the next byte in the file and the bytes held back. The library's buffering is a
  parameter: a stream is unbuffered, or it has a buffer of at least 256 bytes (\<^verbatim>\<open>BUFSIZ\<close> is
  at least 256, and the code never calls \<^verbatim>\<open>setvbuf\<close>), given as \<open>256 + extra\<close>. \<open>fwrite\<close> (with
  element size 1) keeps the bytes in the buffer and reports all of them as written as long
  as they fit. When they do not fit, the buffer and the new bytes go to the file, except
  for a tail of the new bytes that the library may keep in the buffer (\<open>keep\<close>, given the
  number of bytes in the buffer and the number of new bytes); if the file takes them all,
  the count is again complete, otherwise it is the number of new bytes that reached the
  file. \<open>fclose\<close> sends the buffer to the file; the code never looks at its result.
\<close>

datatype stdio = Unbuffered | Buffered nat "nat \<Rightarrow> nat \<Rightarrow> nat"

type_synonym stream = "string \<times> nat \<times> u8 list"

definition buffer_room :: "stdio \<Rightarrow> nat" where
  "buffer_room io = (case io of Unbuffered \<Rightarrow> 0 | Buffered extra keep \<Rightarrow> 256 + extra)"

definition buffer_keeps :: "stdio \<Rightarrow> nat \<Rightarrow> nat \<Rightarrow> nat" where
  "buffer_keeps io held n =
     (case io of
        Unbuffered \<Rightarrow> 0
      | Buffered extra keep \<Rightarrow> min (keep held n) (min (256 + extra) n))"

text \<open>\<^verbatim>\<open>fopen(path, "wb")\<close> creates or empties the file; the environment decides whether it can.\<close>

definition fopen_wb :: "(string \<Rightarrow> bool) \<Rightarrow> files \<Rightarrow> string \<Rightarrow> stream option \<times> files" where
  "fopen_wb can_create fs path =
     (if can_create path then (Some (path, 0, []), fs(path \<mapsto> [])) else (None, fs))"

definition fwrite ::
  "stdio \<Rightarrow> (string \<Rightarrow> nat) \<Rightarrow> files \<Rightarrow> stream \<Rightarrow> u8 list \<Rightarrow> nat \<times> files \<times> stream" where
  "fwrite io capacity fs fd bs =
     (case fd of
        (path, pos, held) \<Rightarrow>
          if length held + length bs \<le> buffer_room io
          then (length bs, fs, (path, pos, held @ bs))
          else
            let kept = buffer_keeps io (length held) (length bs);
                out = held @ take (length bs - kept) bs;
                (n, fs) = write_fd capacity fs path pos out
            in if n = length out
               then (length bs, fs, (path, pos + n, drop (length bs - kept) bs))
               else (n - length held, fs, (path, pos + n, [])))"

definition fclose :: "(string \<Rightarrow> nat) \<Rightarrow> files \<Rightarrow> stream \<Rightarrow> files" where
  "fclose capacity fs fd =
     (case fd of (path, pos, held) \<Rightarrow> snd (write_fd capacity fs path pos held))"

text \<open>Reading \<open>n\<close> bytes out of a heap block, and copying bytes to the start of one.\<close>

definition read_bytes :: "heap \<Rightarrow> addr \<Rightarrow> nat \<Rightarrow> u8 list option" where
  "read_bytes h p n =
     (case block h p of
        None \<Rightarrow> None
      | Some bs \<Rightarrow> if n \<le> length bs then Some (take n bs) else None)"

definition write_bytes :: "heap \<Rightarrow> addr \<Rightarrow> u8 list \<Rightarrow> heap" where
  "write_bytes h p bs =
     (case block h p of
        None \<Rightarrow> h
      | Some old \<Rightarrow> store_block h p (bs @ drop (length bs) old))"

text \<open>
  Modelled from the spec: the byte image of \<^verbatim>\<open>struct bloom\<close> (its size, and how the fields
  lie in it) depends on \<^verbatim>\<open>bloom.h\<close> and on the compiler, neither of which is at hand. The
  layout is a parameter: the size of the structure, the image of a structure and the
  structure that an image of that size stands for.
\<close>

record 'f layout =
  sizeof_bloom :: nat
  to_bytes :: "'f bloom \<Rightarrow> u8 list"
  of_bytes :: "u8 list \<Rightarrow> 'f bloom"

text \<open>The magic string \<^verbatim>\<open>"libbloom2"\<close>, without its terminating zero byte.\<close>

definition BLOOM_MAGIC :: "u8 list" where
  "BLOOM_MAGIC = [0x6C, 0x69, 0x62, 0x62, 0x6C, 0x6F, 0x6F, 0x6D, 0x32]"

text \<open>A \<^verbatim>\<open>uint16_t\<close> in memory, least significant byte first.\<close>

definition u16_bytes :: "u16 \<Rightarrow> u8 list" where
  "u16_bytes w = [ucast w, ucast (drop_bit 8 w)]"

definition u16_of_bytes :: "u8 list \<Rightarrow> u16" where
  "u16_of_bytes bs = (ucast (bs ! 0) :: u16) OR push_bit 8 (ucast (bs ! 1))"

subsection \<open>The two-file format\<close>

text \<open>
  \<^verbatim>\<open>snprintf(filename_str, 68, "%s.blm", filename)\<close> keeps at most 67 characters. The
  structure is read and written through a valid pointer. A block that \<^verbatim>\<open>malloc\<close> returns has
  unspecified contents; the model fills it with zeros, and every path either overwrites
  the whole block or frees it.
\<close>

definition bloom_loadcustom ::
  "'f::zero layout \<Rightarrow> (nat \<Rightarrow> bool) \<Rightarrow> files \<Rightarrow> heap \<Rightarrow> 'f bloom \<Rightarrow> string option
    \<Rightarrow> int \<times> 'f bloom \<times> heap" where
  "bloom_loadcustom L can_alloc fs h bloom filename =
     (case filename of
        None \<Rightarrow> (1, bloom, h)
      | Some name \<Rightarrow>
          if name = [] then (1, bloom, h)
          else
            let filename_str = take 67 (name @ ''.blm'');
                filename_dat = take 67 (name @ ''.dat'')
            in case fs filename_str of
                 None \<Rightarrow> (1, bloom, h)
               | Some fd_str \<Rightarrow>
                   (case fs filename_dat of
                      None \<Rightarrow> (1, bloom, h)
                    | Some fd_dat \<Rightarrow>
                        let got = fst (fread fd_str (sizeof_bloom L));
                            bloom = of_bytes L (got @ drop (length got) (to_bytes L bloom))
                        in if length got \<noteq> sizeof_bloom L then (1, bloom, h)
                           else
                             let (p, h) = alloc can_alloc h (replicate (unat (bytes bloom)) 0);
                                 bloom = bloom\<lparr>bf := p\<rparr>
                             in if p = 0 then (1, zero_bloom, h)
                                else
                                  let got = fst (fread fd_dat (unat (bytes bloom)));
                                      h = write_bytes h (bf bloom) got
                                  in if length got \<noteq> unat (bytes bloom)
                                     then (1, zero_bloom, free_block h (bf bloom))
                                     else (0, bloom, h)))"

text \<open>
  \<open>bloom_savecustom\<close> opens both files before it writes; a short count of either \<^verbatim>\<open>fwrite\<close>
  ends the process with \<^verbatim>\<open>exit(0)\<close>.
\<close>

definition bloom_savecustom ::
  "'f layout \<Rightarrow> (string \<Rightarrow> bool) \<Rightarrow> (string \<Rightarrow> nat) \<Rightarrow> stdio \<Rightarrow> files \<Rightarrow> heap \<Rightarrow> 'f bloom
    \<Rightarrow> string option \<Rightarrow> fault + (int \<times> files)" where
  "bloom_savecustom L can_create capacity io fs h bloom filename =
     (case filename of
        None \<Rightarrow> Inr (1, fs)
      | Some name \<Rightarrow>
          if name = [] then Inr (1, fs)
          else
            let filename_str = take 67 (name @ ''.blm'');
                filename_dat = take 67 (name @ ''.dat'');
                (fd_str, fs) = fopen_wb can_create fs filename_str;
                (fd_dat, fs) = fopen_wb can_create fs filename_dat
            in case (fd_str, fd_dat) of
                 (Some fd_str, Some fd_dat) \<Rightarrow>
                   let (out, fs, fd_str) = fwrite io capacity fs fd_str (to_bytes L bloom)
                   in if out \<noteq> sizeof_bloom L then Inl ProcessExit
                      else
                        (case read_bytes h (bf bloom) (unat (bytes bloom)) of
                           None \<Rightarrow> Inl InvalidAccess
                         | Some data \<Rightarrow>
                             let (out, fs, fd_dat) = fwrite io capacity fs fd_dat data
                             in if out \<noteq> unat (bytes bloom) then Inl ProcessExit
                                else
                                  let fs = fclose capacity fs fd_str;
                                      fs = fclose capacity fs fd_dat
                                  in Inr (0, fs))
               | _ \<Rightarrow> Inr (1, fs))"

subsection \<open>The single-file format\<close>

text \<open>
  The source has two variants of \<open>bloom_save\<close>, chosen by the macro \<^verbatim>\<open>WIN64\<close>. With \<^verbatim>\<open>WIN64\<close>
  the file is opened with \<^verbatim>\<open>fopen(filename, "wb")\<close>, written with \<^verbatim>\<open>fwrite\<close>, and the first
  write passes \<^verbatim>\<open>sizeof(BLOOM_MAGIC)\<close> bytes, the magic string and its terminating zero;
  without it the file is opened with \<^verbatim>\<open>open(filename, O_WRONLY | O_CREAT, 0644)\<close>, which keeps
  the old contents, written with \<^verbatim>\<open>write\<close>, and the first write passes \<^verbatim>\<open>strlen(BLOOM_MAGIC)\<close>
  bytes. Both compare the count of that write with \<^verbatim>\<open>strlen(BLOOM_MAGIC)\<close>.
\<close>

definition bloom_save ::
  "bool \<Rightarrow> 'f layout \<Rightarrow> (string \<Rightarrow> bool) \<Rightarrow> (string \<Rightarrow> nat) \<Rightarrow> stdio \<Rightarrow> files \<Rightarrow> heap
    \<Rightarrow> 'f bloom \<Rightarrow> string option \<Rightarrow> fault + (int \<times> files)" where
  "bloom_save WIN64 L can_create capacity io fs h bloom filename =
     (case filename of
        None \<Rightarrow> Inr (1, fs)
      | Some name \<Rightarrow>
          if name = [] then Inr (1, fs)
          else if WIN64 then
            (case fopen_wb can_create fs name of
               (None, fs) \<Rightarrow> Inr (1, fs)
             | (Some fd, fs) \<Rightarrow>
                 let size = (of_nat (sizeof_bloom L) :: u16);
                     (out, fs, fd) = fwrite io capacity fs fd (BLOOM_MAGIC @ [0])
                 in if out \<noteq> length BLOOM_MAGIC then Inr (1, fclose capacity fs fd)
                    else
                      let (out, fs, fd) = fwrite io capacity fs fd (u16_bytes size)
                      in if out \<noteq> 2 then Inr (1, fclose capacity fs fd)
                         else
                           let (out, fs, fd) = fwrite io capacity fs fd (to_bytes L bloom)
                           in if out \<noteq> sizeof_bloom L then Inr (1, fclose capacity fs fd)
                              else
                                (case read_bytes h (bf bloom) (unat (bytes bloom)) of
                                   None \<Rightarrow> Inl InvalidAccess
                                 | Some data \<Rightarrow>
                                     let (out, fs, fd) = fwrite io capacity fs fd data
                                     in if out \<noteq> unat (bytes bloom)
                                        then Inr (1, fclose capacity fs fd)
                                        else Inr (0, fclose capacity fs fd)))
          else if \<not> can_create name then Inr (1, fs)
          else
            let fs = fs(name \<mapsto> file_bytes fs name);
                pos = 0;
                (out, fs) = write_fd capacity fs name pos BLOOM_MAGIC;
                pos = pos + out
            in if out \<noteq> length BLOOM_MAGIC then Inr (1, fs)
               else
                 let size = (of_nat (sizeof_bloom L) :: u16);
                     (out, fs) = write_fd capacity fs name pos (u16_bytes size);
                     pos = pos + out
                 in if out \<noteq> 2 then Inr (1, fs)
                    else
                      let (out, fs) = write_fd capacity fs name pos (to_bytes L bloom);
                          pos = pos + out
                      in if out \<noteq> sizeof_bloom L then Inr (1, fs)
                         else
                           (case read_bytes h (bf bloom) (unat (bytes bloom)) of
                              None \<Rightarrow> Inl InvalidAccess
                            | Some data \<Rightarrow>
                                let (out, fs) = write_fd capacity fs name pos data
                                in if out \<noteq> unat (bytes bloom) then Inr (1, fs)
                                   else Inr (0, fs)))"

text \<open>
  \<open>bloom_load\<close> has the same two variants; they differ in the calls only (\<^verbatim>\<open>fread\<close> against
  \<^verbatim>\<open>read\<close>) and are one function here. The filter is passed by a pointer that may be \<^verbatim>\<open>NULL\<close>.
  The label \<^verbatim>\<open>load_error\<close> clears \<open>ready\<close> and returns the code.
\<close>

definition load_error :: "int \<Rightarrow> 'f bloom \<Rightarrow> heap \<Rightarrow> int \<times> 'f bloom option \<times> heap" where
  "load_error rv bloom h = (rv, Some (bloom\<lparr>ready := False\<rparr>), h)"

definition bloom_load ::
  "'f::zero layout \<Rightarrow> (nat \<Rightarrow> bool) \<Rightarrow> files \<Rightarrow> heap \<Rightarrow> 'f bloom option \<Rightarrow> string option
    \<Rightarrow> int \<times> 'f bloom option \<times> heap" where
  "bloom_load L can_alloc fs h bloom filename =
     (case filename of
        None \<Rightarrow> (1, bloom, h)
      | Some name \<Rightarrow>
          if name = [] then (1, bloom, h)
          else
            case bloom of
              None \<Rightarrow> (2, bloom, h)
            | Some _ \<Rightarrow>
                let bloom = zero_bloom
                in case fs name of
                     None \<Rightarrow> (3, Some bloom, h)
                   | Some fd \<Rightarrow>
                       let (line, fd) = fread fd (length BLOOM_MAGIC)
                       in if length line \<noteq> length BLOOM_MAGIC then load_error 4 bloom h
                          else if line \<noteq> BLOOM_MAGIC then load_error 5 bloom h
                          else
                            let (size, fd) = fread fd 2
                            in if length size \<noteq> 2 then load_error 6 bloom h
                               else if unat (u16_of_bytes size) \<noteq> sizeof_bloom L
                               then load_error 7 bloom h
                               else
                                 let (got, fd) = fread fd (sizeof_bloom L);
                                     bloom = of_bytes L (got @ drop (length got) (to_bytes L bloom))
                                 in if length got \<noteq> sizeof_bloom L then load_error 8 bloom h
                                    else
                                      let bloom = bloom\<lparr>bf := 0\<rparr>
                                      in if major bloom \<noteq> BLOOM_VERSION_MAJOR
                                         then load_error 9 bloom h
                                         else
                                           let (p, h) = alloc can_alloc h
                                                 (replicate (unat (bytes bloom)) 0);
                                               bloom = bloom\<lparr>bf := p\<rparr>
                                           in if p = 0 then load_error 10 bloom h
                                              else
                                                let (got, fd) = fread fd (unat (bytes bloom));
                                                    h = write_bytes h (bf bloom) got
                                                in if length got \<noteq> unat (bytes bloom)
                                                   then load_error 11 (bloom\<lparr>bf := 0\<rparr>)
                                                          (free_block h (bf bloom))
                                                   else (0, Some bloom, h))"

section \<open>Notions used to state the properties\<close>

subsection \<open>Bits of a buffer\<close>

text \<open>
  Bit \<open>x\<close> of a buffer is bit \<open>x mod 8\<close> of byte \<open>x div 8\<close>, bit \<open>0\<close> being the least
  significant one; \<open>set_bit_at\<close> switches it on.
\<close>

definition bit_at :: "u8 list \<Rightarrow> nat \<Rightarrow> bool" where
  "bit_at buf x \<longleftrightarrow> x div 8 < length buf \<and> bit (buf ! (x div 8)) (x mod 8)"

definition set_bit_at :: "u8 list \<Rightarrow> nat \<Rightarrow> u8 list" where
  "set_bit_at buf x = buf[x div 8 := Bit_Operations.set_bit (x mod 8) (buf ! (x div 8))]"

text \<open>The bit index of round \<open>j\<close>, and the indices of all rounds for one element.\<close>

definition index_of :: "u64 \<Rightarrow> u64 \<Rightarrow> u64 \<Rightarrow> nat \<Rightarrow> nat" where
  "index_of a b nbits j = unat (bit_index a b (of_nat j) nbits)"

definition bloom_indices :: "hash64 \<Rightarrow> 'f bloom \<Rightarrow> u8 list \<Rightarrow> nat list" where
  "bloom_indices XXH64 bloom buffer =
     (let a = XXH64 buffer 0x59f2815b16f81798; b = XXH64 buffer a
      in map (index_of a b (bits bloom)) [0..<unat (hashes bloom)])"

text \<open>
  The loop of \<open>bloom_check_add\<close> read as a recursion over the list of indices, once for
  the query (stop at the first unset bit) and once for the insert (set every bit, remember
  whether all of them were set before).
\<close>

fun check_list :: "u8 list \<Rightarrow> nat list \<Rightarrow> fault + int" where
  "check_list buf [] = Inr 1"
| "check_list buf (x # xs) =
     (if length buf \<le> x div 8 then Inl InvalidAccess
      else if bit_at buf x then check_list buf xs
      else Inr 0)"

fun add_list :: "u8 list \<Rightarrow> bool \<Rightarrow> nat list \<Rightarrow> fault + (int \<times> u8 list)" where
  "add_list buf ok [] = Inr (if ok then 1 else 0, buf)"
| "add_list buf ok (x # xs) =
     (if length buf \<le> x div 8 then Inl InvalidAccess
      else add_list (set_bit_at buf x) (ok \<and> bit_at buf x) xs)"

text \<open>A sequence of inserts, one after the other, on the same filter.\<close>

fun bloom_add_seq :: "hash64 \<Rightarrow> 'f bloom \<Rightarrow> heap \<Rightarrow> u8 list list \<Rightarrow> fault + heap" where
  "bloom_add_seq XXH64 bloom h [] = Inr h"
| "bloom_add_seq XXH64 bloom h (y # ys) =
     (case bloom_add XXH64 bloom h y of
        Inl f \<Rightarrow> Inl f
      | Inr (r, h') \<Rightarrow> bloom_add_seq XXH64 bloom h' ys)"

text \<open>What a completed insert of \<open>data\<close> leaves behind, and what a query of \<open>data\<close> needs.\<close>

definition holds :: "hash64 \<Rightarrow> 'f bloom \<Rightarrow> heap \<Rightarrow> u8 list \<Rightarrow> bool" where
  "holds XXH64 bloom h data \<longleftrightarrow>
     hashes bloom = 0 \<or>
     (bits bloom \<noteq> 0 \<and>
      (\<exists>buf. block h (bf bloom) = Some buf \<and>
         (\<forall>x\<in>set (bloom_indices XXH64 bloom data). bit_at buf x)))"

text \<open>
  A ready filter in the sense of the data model: the flag is set, the buffer is a live block
  of exactly \<open>bytes\<close> bytes that covers all \<open>bits\<close> bits, and there is at least one bit
  (the index of a round is a remainder modulo \<open>bits\<close>).
\<close>

definition ready_filter :: "'f bloom \<Rightarrow> heap \<Rightarrow> u8 list \<Rightarrow> bool" where
  "ready_filter bloom h buf \<longleftrightarrow>
     ready bloom \<and> block h (bf bloom) = Some buf \<and> length buf = unat (bytes bloom) \<and>
     unat (bits bloom) \<le> 8 * unat (bytes bloom) \<and> bits bloom \<noteq> 0"

text \<open>
  The index of round \<open>i\<close> as the specification words it: \<open>(a + b * i) mod bitCount\<close> over
  the mathematical integers.
\<close>

definition spec_index :: "u64 \<Rightarrow> u64 \<Rightarrow> nat \<Rightarrow> u64 \<Rightarrow> nat" where
  "spec_index a b i nbits = (unat a + unat b * i) mod unat nbits"

subsection \<open>Loading, as the specification words it\<close>

text \<open>Every image of a structure has the size of the structure.\<close>

definition layout_sized :: "'f layout \<Rightarrow> bool" where
  "layout_sized L \<longleftrightarrow> (\<forall>b. length (to_bytes L b) = sizeof_bloom L)"

text \<open>
  The eleven checks of the single-file load, in the order of the specification: the number
  of the first check that is violated, or 0 when none is.
\<close>

definition first_failed_check ::
  "'f layout \<Rightarrow> (nat \<Rightarrow> bool) \<Rightarrow> files \<Rightarrow> 'f bloom option \<Rightarrow> string option \<Rightarrow> nat" where
  "first_failed_check L can_alloc fs bloom filename =
     (case filename of
        None \<Rightarrow> 1
      | Some name \<Rightarrow>
          if name = [] then 1
          else if bloom = None then 2
          else
            case fs name of
              None \<Rightarrow> 3
            | Some c \<Rightarrow>
                if length c < 9 then 4
                else if take 9 c \<noteq> BLOOM_MAGIC then 5
                else if length c < 11 then 6
                else if unat (u16_of_bytes (take 2 (drop 9 c))) \<noteq> sizeof_bloom L then 7
                else if length c < 11 + sizeof_bloom L then 8
                else
                  let meta = of_bytes L (take (sizeof_bloom L) (drop 11 c))
                  in if major meta \<noteq> 2 then 9
                     else if \<not> can_alloc (unat (bytes meta)) then 10
                     else if length c < 11 + sizeof_bloom L + unat (bytes meta) then 11
                     else 0)"

text \<open>The causes for which the two-file load fails, in the order in which it meets them.\<close>

datatype load_cause = NoName | MissingFile | ShortMetadata | NoMemory | ShortBuffer | Loaded

definition loadcustom_cause ::
  "'f layout \<Rightarrow> (nat \<Rightarrow> bool) \<Rightarrow> files \<Rightarrow> string option \<Rightarrow> load_cause" where
  "loadcustom_cause L can_alloc fs filename =
     (case filename of
        None \<Rightarrow> NoName
      | Some name \<Rightarrow>
          if name = [] then NoName
          else
            case (fs (take 67 (name @ ''.blm'')), fs (take 67 (name @ ''.dat''))) of
              (Some m, Some d) \<Rightarrow>
                if length m < sizeof_bloom L then ShortMetadata
                else
                  let meta = of_bytes L (take (sizeof_bloom L) m)
                  in if \<not> can_alloc (unat (bytes meta)) then NoMemory
                     else if length d < unat (bytes meta) then ShortBuffer
                     else Loaded
            | _ \<Rightarrow> MissingFile)"

subsection \<open>A small filter for concrete runs\<close>

text \<open>
  A stand-in for the external hash (its first value is the largest 64-bit number, so that
  the index arithmetic wraps around), a filter of 20 bits with 3 rounds, and a heap that
  holds its empty buffer.
\<close>

definition demo_hash :: hash64 where
  "demo_hash buffer seed =
     (if seed = 0x59f2815b16f81798 then 0xFFFFFFFFFFFFFFFF else of_nat (length buffer) + 1)"

definition demo_bloom :: "real bloom" where
  "demo_bloom = \<lparr>entries = 1000, error = 1 / 2, bits = 20, bytes = 3, hashes = 3, bpe = 3 / 2,
     bf = 1, ready = True, major = 2, minor = 1\<rparr>"

definition demo_heap :: heap where
  "demo_heap = [Some [0, 0, 0]]"

text \<open>An environment in which every allocation succeeds, and a file system without files.\<close>

definition plenty :: "nat \<Rightarrow> bool" where
  "plenty n = True"

definition no_files :: files where
  "no_files = Map.empty"

text \<open>
  A layout of four bytes for concrete runs: the low bytes of \<open>bits\<close> and \<open>bytes\<close>, then
  \<open>hashes\<close> and \<open>major\<close>; the other fields are those of the demo filter.
\<close>

definition demo_layout :: "real layout" where
  "demo_layout = \<lparr>sizeof_bloom = 4,
     to_bytes = (\<lambda>b. [ucast (bits b), ucast (bytes b), hashes b, of_nat (major b)]),
     of_bytes = (\<lambda>bs. demo_bloom\<lparr>bits := ucast (bs ! 0), bytes := ucast (bs ! 1),
       hashes := bs ! 2, major := unat (bs ! 3)\<rparr>)\<rparr>"

text \<open>The demo filter without rounds: its query loop has nothing to test.\<close>

definition no_rounds_bloom :: "real bloom" where
  "no_rounds_bloom = demo_bloom\<lparr>hashes := 0\<rparr>"

text \<open>
  The filter that \<open>bloom_init2\<close> leaves for 1000 entries and the error rate 0.9999: the
  product of the entries and the bits per element is about 0.2, so it has no bit, a buffer
  of no bytes and one round, and it is ready.
\<close>

definition no_bits_bloom :: "real bloom" where
  "no_bits_bloom = \<lparr>entries = 1000, error = 9999 / 10000, bits = 0, bytes = 0, hashes = 1,
     bpe = - ln (9999 / 10000) / 0.480453013918201, bf = 1, ready = True, major = 2, minor = 1\<rparr>"

text \<open>
  Floating-point operations without rounding, for concrete runs only: every operation gives
  the exact real result, and a conversion to an unsigned integer truncates towards zero
  (and wraps around when the value does not fit).
\<close>

definition exact_float_ops :: float_ops where
  "exact_float_ops = \<lparr>d_lit = (\<lambda>x. x), ld_log = ln, ld_div = (\<lambda>x y. x / y),
     ld_mul = (\<lambda>x y. x * y), ld_of_u64 = (\<lambda>w. real (unat w)),
     ld_to_u64 = (\<lambda>x. of_int (if 0 \<le> x then \<lfloor>x\<rfloor> else \<lceil>x\<rceil>)), ld_to_d = (\<lambda>x. x),
     d_mul = (\<lambda>x y. x * y), d_ceil = (\<lambda>x. of_int \<lceil>x\<rceil>),
     d_to_u8 = (\<lambda>x. of_int (if 0 \<le> x then \<lfloor>x\<rfloor> else \<lceil>x\<rceil>))\<rparr>"

section \<open>Auxiliary facts\<close>

subsection \<open>Blocks and bits\<close>

lemma block_store_same: "block h p = Some buf \<Longrightarrow> block (store_block h p bs) p = Some bs"
  by (auto simp: block_def store_block_def split: if_splits)

lemma block_store_other:
  "block h q = Some buf \<Longrightarrow> p \<noteq> q \<Longrightarrow> block (store_block h q bs) p = block h p"
  by (cases p; cases q) (auto simp: block_def store_block_def split: if_splits)

lemma store_block_id: "block h p = Some buf \<Longrightarrow> store_block h p buf = h"
  by (auto simp: block_def store_block_def list_update_same_conv split: if_splits)

lemma store_block_twice: "store_block (store_block h p bs) p bs' = store_block h p bs'"
  by (simp add: store_block_def)

lemma set_bit_at_id: "bit_at buf x \<Longrightarrow> set_bit_at buf x = buf"
proof -
  have "Bit_Operations.set_bit n c = c" if "bit c n" for c :: u8 and n
    by (rule bit_eqI) (use that in \<open>auto simp: bit_set_bit_iff\<close>)
  then show "bit_at buf x \<Longrightarrow> set_bit_at buf x = buf"
    by (simp add: bit_at_def set_bit_at_def list_update_same_conv)
qed

lemma length_set_bit_at [simp]: "length (set_bit_at buf x) = length buf"
  by (simp add: set_bit_at_def)

lemma test_bit_set_bit_block:
  assumes "block h p = Some buf"
  shows "test_bit_set_bit h p x add =
    (if length buf \<le> unat x div 8 then Inl InvalidAccess
     else Inr (if bit_at buf (unat x) then 1 else 0,
               if add then store_block h p (set_bit_at buf (unat x)) else h))"
proof -
  have d: "unat (drop_bit 3 x) = unat x div 8"
    by (simp add: unat_drop_bit_eq drop_bit_eq_div unat_div)
  have m: "unat (x mod 8) = unat x mod 8"
    by (simp add: unat_mod)
  have t: "(c AND 2 ^ n \<noteq> 0) = bit c n" for c :: u8 and n
    using bit_iff_and_push_bit_not_eq_0 [of c n] by simp
  have o: "c OR 2 ^ n = Bit_Operations.set_bit n c" for c :: u8 and n
    by (simp add: set_bit_eq_or)
  show ?thesis
  proof (cases "length buf \<le> unat x div 8")
    case True
    with assms show ?thesis
      by (simp add: test_bit_set_bit_def load_byte_def d)
  next
    case False
    show ?thesis
    proof (cases "bit_at buf (unat x)")
      case True
      with False assms show ?thesis
        by (simp add: test_bit_set_bit_def load_byte_def d m t bit_at_def [symmetric]
            set_bit_at_id store_block_id)
          (simp add: bit_at_def)
    next
      case nb: False
      with False assms show ?thesis
        by (simp add: test_bit_set_bit_def load_byte_def store_byte_def d m t o bit_at_def
            set_bit_at_def Let_def)
    qed
  qed
qed

lemma word_of_nat_unat_u8 [simp]: "(of_nat (unat (i :: u8)) :: u8) = i"
  by simp

lemma u8_succ_below: "(i :: u8) < n \<Longrightarrow> unat (i + 1) = Suc (unat i)"
proof -
  assume "i < n"
  then have "unat i < unat n" by (simp add: word_less_nat_alt)
  moreover have "unat n < 2 ^ 8" using unsigned_less [of n] by simp
  ultimately have "unat i + 1 < 2 ^ 8" by simp
  then show ?thesis by (simp add: unat_word_ariths)
qed

lemma check_loop_refines:
  assumes "block h (bf bloom) = Some buf" and "bits bloom \<noteq> 0" and "i \<le> hashes bloom"
  shows "check_add_loop bloom a b False h i i =
    map_sum id (\<lambda>r. (r, h))
      (check_list buf (map (index_of a b (bits bloom)) [unat i..<unat (hashes bloom)]))"
  using assms
proof (induction "unat (hashes bloom) - unat i" arbitrary: i)
  case 0
  then have "i = hashes bloom" by (simp add: word_le_nat_alt word_unat_eq_iff)
  then show ?case by (subst check_add_loop.simps) simp
next
  case (Suc k)
  then have lt: "i < hashes bloom" by (simp add: word_less_nat_alt)
  then have ui: "unat i < unat (hashes bloom)" by (simp add: word_less_nat_alt)
  have s: "unat (i + 1) = Suc (unat i)" by (rule u8_succ_below [OF lt])
  have le: "i + 1 \<le> hashes bloom" using ui s by (simp add: word_le_nat_alt)
  have k: "k = unat (hashes bloom) - unat (i + 1)" using Suc.hyps(2) s by simp
  note IH = Suc.hyps(1) [OF k Suc.prems(1) Suc.prems(2) le]
  show ?case
    by (subst check_add_loop.simps)
      (simp add: lt Suc.prems test_bit_set_bit_block [OF Suc.prems(1)] upt_conv_Cons [OF ui]
        index_of_def IH s)
qed

lemma add_loop_refines:
  assumes "block h (bf bloom) = Some buf" and "bits bloom \<noteq> 0" and "i \<le> hashes bloom"
    and "hits \<le> i"
  shows "check_add_loop bloom a b True h hits i =
    map_sum id (\<lambda>(r, buf'). (r, store_block h (bf bloom) buf'))
      (add_list buf (hits = i) (map (index_of a b (bits bloom)) [unat i..<unat (hashes bloom)]))"
  using assms
proof (induction "unat (hashes bloom) - unat i" arbitrary: i hits h buf)
  case 0
  then have "i = hashes bloom" by (simp add: word_le_nat_alt word_unat_eq_iff)
  then show ?case
    by (subst check_add_loop.simps) (simp add: store_block_id [OF "0.prems"(1)])
next
  case (Suc k)
  then have lt: "i < hashes bloom" by (simp add: word_less_nat_alt)
  then have ui: "unat i < unat (hashes bloom)" by (simp add: word_less_nat_alt)
  have s: "unat (i + 1) = Suc (unat i)" by (rule u8_succ_below [OF lt])
  have le: "i + 1 \<le> hashes bloom" using ui s by (simp add: word_le_nat_alt)
  have k: "k = unat (hashes bloom) - unat (i + 1)" using Suc.hyps(2) s by simp
  let ?x = "index_of a b (bits bloom) (unat i)"
  have x: "unat (bit_index a b i (bits bloom)) = ?x" by (simp add: index_of_def)
  have hl: "hits < hashes bloom" using Suc.prems(4) lt by simp
  have sh: "unat (hits + 1) = Suc (unat hits)" by (rule u8_succ_below [OF hl])
  have hle1: "hits + 1 \<le> i + 1" using Suc.prems(4) s sh by (simp add: word_le_nat_alt)
  have hle2: "hits \<le> i + 1" using Suc.prems(4) s by (simp add: word_le_nat_alt)
  have eq1: "(hits + 1 = i + 1) = (hits = i)" by simp
  have ne2: "hits \<noteq> i + 1" using Suc.prems(4) s by (auto simp: word_le_nat_alt)
  show ?case
  proof (cases "length buf \<le> ?x div 8")
    case True
    then show ?thesis
      by (subst check_add_loop.simps)
        (simp add: lt Suc.prems test_bit_set_bit_block [OF Suc.prems(1)] upt_conv_Cons [OF ui] x)
  next
    case inb: False
    show ?thesis
    proof (cases "bit_at buf ?x")
      case True
      have b': "block (store_block h (bf bloom) (set_bit_at buf ?x)) (bf bloom) = Some (set_bit_at buf ?x)"
        by (rule block_store_same [OF Suc.prems(1)])
      note IH = Suc.hyps(1) [OF k b' Suc.prems(2) le hle1]
      show ?thesis
        by (subst check_add_loop.simps)
          (simp add: lt Suc.prems test_bit_set_bit_block [OF Suc.prems(1)] upt_conv_Cons [OF ui]
            x inb True IH s eq1 store_block_twice)
    next
      case False
      have b': "block (store_block h (bf bloom) (set_bit_at buf ?x)) (bf bloom) = Some (set_bit_at buf ?x)"
        by (rule block_store_same [OF Suc.prems(1)])
      note IH = Suc.hyps(1) [OF k b' Suc.prems(2) le hle2]
      show ?thesis
        by (subst check_add_loop.simps)
          (simp add: lt Suc.prems test_bit_set_bit_block [OF Suc.prems(1)] upt_conv_Cons [OF ui]
            x inb False IH s ne2 store_block_twice)
    qed
  qed
qed

lemma bit_at_set_bit_at:
  "bit_at (set_bit_at buf x) y \<longleftrightarrow> (x div 8 < length buf \<and> y = x) \<or> bit_at buf y"
proof (cases "y div 8 = x div 8")
  case True
  have "y = x \<longleftrightarrow> y mod 8 = x mod 8"
    using True by (metis div_mult_mod_eq)
  moreover have "x mod 8 < 8" by simp
  ultimately show ?thesis
    using True by (auto simp: bit_at_def set_bit_at_def bit_set_bit_iff possible_bit_word)
next
  case False
  then show ?thesis
    by (auto simp: bit_at_def set_bit_at_def)
qed

lemma check_list_one: "check_list buf xs = Inr 1 \<longleftrightarrow> (\<forall>x\<in>set xs. bit_at buf x)"
  by (induction xs) (auto simp: bit_at_def)

lemma check_list_range: "check_list buf xs = Inr r \<Longrightarrow> r = 0 \<or> r = 1"
  by (induction xs) (auto split: if_splits)

lemma check_list_total:
  "\<forall>x\<in>set xs. x div 8 < length buf \<Longrightarrow>
   check_list buf xs = Inr (if \<forall>x\<in>set xs. bit_at buf x then 1 else 0)"
  by (induction xs) auto

lemma check_list_short:
  "\<forall>y\<in>set ys. bit_at buf y \<Longrightarrow> z div 8 < length buf \<Longrightarrow> \<not> bit_at buf z \<Longrightarrow>
   check_list buf (ys @ z # zs) = Inr 0"
  by (induction ys) (auto simp: bit_at_def)

lemma add_list_result:
  "add_list buf ok xs = Inr (r, buf') \<Longrightarrow>
   buf' = foldl set_bit_at buf xs \<and> (r = 0 \<or> r = 1) \<and>
   (r = 1 \<longleftrightarrow> ok \<and> (\<forall>x\<in>set xs. bit_at buf x)) \<and>
   (\<forall>x\<in>set xs. x div 8 < length buf)"
proof (induction xs arbitrary: buf ok)
  case Nil
  then show ?case by (auto split: if_splits)
next
  case (Cons x xs)
  from Cons.prems have inb: "x div 8 < length buf"
    and rest: "add_list (set_bit_at buf x) (ok \<and> bit_at buf x) xs = Inr (r, buf')"
    by (auto split: if_splits)
  note IH = Cons.IH [OF rest]
  show ?case
  proof (cases "bit_at buf x")
    case True
    then show ?thesis using IH inb by (auto simp: set_bit_at_id)
  next
    case False
    then show ?thesis using IH inb by auto
  qed
qed

lemma add_list_total:
  "\<forall>x\<in>set xs. x div 8 < length buf \<Longrightarrow>
   add_list buf ok xs =
     Inr (if ok \<and> (\<forall>x\<in>set xs. bit_at buf x) then 1 else 0, foldl set_bit_at buf xs)"
proof (induction xs arbitrary: buf ok)
  case Nil
  then show ?case by simp
next
  case (Cons x xs)
  show ?case
  proof (cases "bit_at buf x")
    case True
    then show ?thesis using Cons.prems Cons.IH [of buf ok] by (simp add: set_bit_at_id)
  next
    case False
    then show ?thesis using Cons.prems Cons.IH [of "set_bit_at buf x" False] by simp
  qed
qed

lemma length_foldl_set_bit_at [simp]: "length (foldl set_bit_at buf xs) = length buf"
  by (induction xs arbitrary: buf) auto

lemma bit_at_foldl_set_bit_at:
  "\<forall>x\<in>set xs. x div 8 < length buf \<Longrightarrow>
   bit_at (foldl set_bit_at buf xs) y \<longleftrightarrow> y \<in> set xs \<or> bit_at buf y"
  by (induction xs arbitrary: buf) (auto simp: bit_at_set_bit_at)

lemma index_of_less: "nbits \<noteq> 0 \<Longrightarrow> index_of a b nbits j < unat nbits"
  by (simp add: index_of_def bit_index_def unat_mod unat_gt_0)

lemma bloom_check_eq:
  assumes "ready bloom" and "block h (bf bloom) = Some buf" and "bits bloom \<noteq> 0"
  shows "bloom_check XXH64 bloom h data =
    map_sum id (\<lambda>r. (r, h)) (check_list buf (bloom_indices XXH64 bloom data))"
  using assms check_loop_refines [OF assms(2,3), of 0]
  by (simp add: bloom_check_def bloom_check_add_def bloom_indices_def Let_def)

lemma bloom_add_eq:
  assumes "ready bloom" and "block h (bf bloom) = Some buf" and "bits bloom \<noteq> 0"
  shows "bloom_add XXH64 bloom h data =
    map_sum id (\<lambda>(r, buf'). (r, store_block h (bf bloom) buf'))
      (add_list buf True (bloom_indices XXH64 bloom data))"
  using assms add_loop_refines [OF assms(2,3), of 0 0]
  by (simp add: bloom_add_def bloom_check_add_def bloom_indices_def Let_def)

lemma check_add_no_rounds:
  assumes "ready bloom" and "hashes bloom = 0"
  shows "bloom_check_add XXH64 bloom h data add = Inr (1, h)"
  using assms by (simp add: bloom_check_add_def Let_def check_add_loop.simps)

lemma check_add_faults:
  assumes "ready bloom" and "hashes bloom \<noteq> 0" and "bits bloom = 0 \<or> block h (bf bloom) = None"
  shows "\<exists>f. bloom_check_add XXH64 bloom h data add = Inl f"
proof -
  have "0 < hashes bloom" using assms(2) by (simp add: word_greater_zero_iff)
  then show ?thesis
    using assms
    by (auto simp: bloom_check_add_def Let_def check_add_loop.simps [of bloom _ _ add h 0 0]
        test_bit_set_bit_def load_byte_def)
qed

lemma add_establishes:
  assumes "ready bloom" and "bloom_add XXH64 bloom h data = Inr (r, h')"
  shows "holds XXH64 bloom h' data"
proof (cases "hashes bloom = 0")
  case True
  then show ?thesis by (simp add: holds_def)
next
  case False
  have nz: "bits bloom \<noteq> 0" and "block h (bf bloom) \<noteq> None"
    using check_add_faults [OF assms(1) False, of h XXH64 data True] assms(2)
    by (auto simp: bloom_add_def)
  then obtain buf where buf: "block h (bf bloom) = Some buf" by auto
  from assms(2) bloom_add_eq [OF assms(1) buf nz, of XXH64 data]
  obtain buf' where al: "add_list buf True (bloom_indices XXH64 bloom data) = Inr (r, buf')"
    and h': "h' = store_block h (bf bloom) buf'"
    by (cases "add_list buf True (bloom_indices XXH64 bloom data)") auto
  from add_list_result [OF al]
  have fo: "buf' = foldl set_bit_at buf (bloom_indices XXH64 bloom data)"
    and inb: "\<forall>x\<in>set (bloom_indices XXH64 bloom data). x div 8 < length buf"
    by simp_all
  have "\<forall>x\<in>set (bloom_indices XXH64 bloom data). bit_at buf' x"
    using bit_at_foldl_set_bit_at [OF inb] fo by simp
  moreover have "block h' (bf bloom) = Some buf'"
    using block_store_same [OF buf] h' by simp
  ultimately show ?thesis using nz by (auto simp: holds_def)
qed

lemma add_preserves:
  assumes "ready bloom" and "bloom_add XXH64 bloom h other = Inr (r, h')"
    and "holds XXH64 bloom h data"
  shows "holds XXH64 bloom h' data"
proof (cases "hashes bloom = 0")
  case True
  then show ?thesis by (simp add: holds_def)
next
  case False
  with assms(3) obtain buf where nz: "bits bloom \<noteq> 0" and buf: "block h (bf bloom) = Some buf"
    and set: "\<forall>x\<in>set (bloom_indices XXH64 bloom data). bit_at buf x"
    by (auto simp: holds_def)
  from assms(2) bloom_add_eq [OF assms(1) buf nz, of XXH64 other]
  obtain buf' where al: "add_list buf True (bloom_indices XXH64 bloom other) = Inr (r, buf')"
    and h': "h' = store_block h (bf bloom) buf'"
    by (cases "add_list buf True (bloom_indices XXH64 bloom other)") auto
  from add_list_result [OF al]
  have fo: "buf' = foldl set_bit_at buf (bloom_indices XXH64 bloom other)"
    and inb: "\<forall>x\<in>set (bloom_indices XXH64 bloom other). x div 8 < length buf"
    by simp_all
  have "\<forall>x\<in>set (bloom_indices XXH64 bloom data). bit_at buf' x"
    using bit_at_foldl_set_bit_at [OF inb] fo set by simp
  moreover have "block h' (bf bloom) = Some buf'"
    using block_store_same [OF buf] h' by simp
  ultimately show ?thesis using nz by (auto simp: holds_def)
qed

lemma add_seq_preserves:
  assumes "ready bloom"
  shows "bloom_add_seq XXH64 bloom h others = Inr h' \<Longrightarrow> holds XXH64 bloom h data \<Longrightarrow>
    holds XXH64 bloom h' data"
proof (induction others arbitrary: h)
  case Nil
  then show ?case by simp
next
  case (Cons y ys)
  from Cons.prems(1) obtain r h1 where a: "bloom_add XXH64 bloom h y = Inr (r, h1)"
    and s: "bloom_add_seq XXH64 bloom h1 ys = Inr h'"
    by (auto split: sum.splits)
  from add_preserves [OF assms a Cons.prems(2)] Cons.IH [OF s] show ?case by simp
qed

lemma holds_check:
  assumes "ready bloom" and "holds XXH64 bloom h data"
  shows "bloom_check XXH64 bloom h data = Inr (1, h)"
proof (cases "hashes bloom = 0")
  case True
  then show ?thesis using check_add_no_rounds [OF assms(1) True] by (simp add: bloom_check_def)
next
  case False
  with assms(2) obtain buf where nz: "bits bloom \<noteq> 0" and buf: "block h (bf bloom) = Some buf"
    and set: "\<forall>x\<in>set (bloom_indices XXH64 bloom data). bit_at buf x"
    by (auto simp: holds_def)
  from set have "check_list buf (bloom_indices XXH64 bloom data) = Inr 1"
    by (simp add: check_list_one)
  then show ?thesis using bloom_check_eq [OF assms(1) buf nz, of XXH64 data] by simp
qed

subsection \<open>Indices and ready filters\<close>

lemma index_of_arith:
  assumes "j < 256"
  shows "index_of a b nbits j = ((unat a + unat b * j) mod 2 ^ 64) mod unat nbits"
proof -
  have u: "unat (ucast (of_nat j :: u8) :: u64) = j"
    using assms by (simp add: unsigned_ucast_eq unat_of_nat take_bit_nat_eq_self)
  have "unat (a + b * ucast (of_nat j :: u8)) = (unat a + unat b * j) mod 2 ^ 64"
    by (simp add: unat_word_ariths u mod_simps)
  then show ?thesis
    by (simp add: index_of_def bit_index_def unat_mod)
qed

lemma bloom_indices_arith:
  "bloom_indices XXH64 bloom data =
     map (\<lambda>i. ((unat (XXH64 data 0x59f2815b16f81798)
                 + unat (XXH64 data (XXH64 data 0x59f2815b16f81798)) * i) mod 2 ^ 64)
               mod unat (bits bloom))
       [0..<unat (hashes bloom)]"
proof -
  have "unat (hashes bloom) < 2 ^ 8" using unsigned_less [of "hashes bloom"] by simp
  then have "\<forall>j\<in>set [0..<unat (hashes bloom)]. j < 256" by simp
  then show ?thesis
    by (simp add: bloom_indices_def Let_def index_of_arith)
qed

lemma ready_filter_in_bounds:
  assumes "ready_filter bloom h buf"
  shows "\<forall>x\<in>set (bloom_indices XXH64 bloom data). x div 8 < length buf"
proof
  fix x assume "x \<in> set (bloom_indices XXH64 bloom data)"
  then obtain j where "x = index_of (XXH64 data 0x59f2815b16f81798)
      (XXH64 data (XXH64 data 0x59f2815b16f81798)) (bits bloom) j"
    by (auto simp: bloom_indices_def Let_def)
  moreover from assms have "bits bloom \<noteq> 0" by (simp add: ready_filter_def)
  ultimately have lt: "x < unat (bits bloom)" by (simp add: index_of_less)
  from assms have "unat (bits bloom) \<le> 8 * length buf" by (simp add: ready_filter_def)
  with lt show "x div 8 < length buf" by (simp add: less_mult_imp_div_less mult.commute)
qed

lemma ready_filter_check:
  assumes "ready_filter bloom h buf"
  shows "bloom_check XXH64 bloom h data =
    Inr (if \<forall>x\<in>set (bloom_indices XXH64 bloom data). bit_at buf x then 1 else 0, h)"
proof -
  from assms have r: "ready bloom" and b: "block h (bf bloom) = Some buf" and nz: "bits bloom \<noteq> 0"
    by (simp_all add: ready_filter_def)
  show ?thesis
    using bloom_check_eq [OF r b nz, of XXH64 data]
      check_list_total [OF ready_filter_in_bounds [OF assms, of XXH64 data]]
    by simp
qed

lemma ready_filter_add:
  assumes "ready_filter bloom h buf"
  shows "bloom_add XXH64 bloom h data =
    Inr (if \<forall>x\<in>set (bloom_indices XXH64 bloom data). bit_at buf x then 1 else 0,
         store_block h (bf bloom) (foldl set_bit_at buf (bloom_indices XXH64 bloom data)))"
proof -
  from assms have r: "ready bloom" and b: "block h (bf bloom) = Some buf" and nz: "bits bloom \<noteq> 0"
    by (simp_all add: ready_filter_def)
  show ?thesis
    using bloom_add_eq [OF r b nz, of XXH64 data]
      add_list_total [OF ready_filter_in_bounds [OF assms, of XXH64 data], of True]
    by simp
qed

subsection \<open>Reset\<close>



subsection \<open>Sizing arithmetic\<close>

lemma ceil_bytes: "(n + 7) div 8 = (if n mod 8 \<noteq> 0 then n div 8 + 1 else n div 8)" for n :: nat
proof -
  define q r where "q = n div 8" and "r = n mod 8"
  have n: "n = 8 * q + r" and r: "r < 8" by (simp_all add: q_def r_def)
  have "(8 * q + r + 7) div 8 = (if r \<noteq> 0 then q + 1 else q)"
  proof (cases "r = 0")
    case True
    then show ?thesis by simp
  next
    case False
    have "(8 * q + r + 7) div 8 = Suc q"
      by (rule div_nat_eqI) (use False r in simp_all)
    with False show ?thesis by simp
  qed
  then show ?thesis unfolding q_def r_def by simp
qed

lemma bytes_of_bits:
  fixes w :: u64
  shows "unat (if w mod 8 \<noteq> 0 then w div 8 + 1 else w div 8) = (unat w + 7) div 8"
proof -
  have d: "unat (w div 8) = unat w div 8" by (simp add: unat_div)
  have m: "(w mod 8 \<noteq> 0) = (unat w mod 8 \<noteq> 0)"
    by (simp add: unat_mod word_unat_eq_iff)
  have "unat w < 18446744073709551616" using unsigned_less [of w] by simp
  then have "unat w div 8 + 1 < 18446744073709551616" by linarith
  then have p: "unat (w div 8 + 1) = unat w div 8 + 1"
    by (simp add: unat_word_ariths d)
  show ?thesis
    by (simp add: d m p ceil_bytes)
qed

lemma bloom_init2_accepts:
  fixes F :: float_ops and entries' :: u64 and error' :: real and can_alloc :: "nat \<Rightarrow> bool"
    and h :: heap
  defines "bpe' \<equiv> ld_to_d F (ld_div F (- ld_log F error') (d_lit F 0.480453013918201))"
  defines "w \<equiv> ld_to_u64 F (ld_mul F (ld_of_u64 F entries') bpe')"
  defines "nbytes \<equiv> (if w mod 8 \<noteq> 0 then w div 8 + 1 else w div 8)"
  assumes nv: "\<not> (entries' < 1000 \<or> error' \<le> 0 \<or> 1 \<le> error')"
    and room: "can_alloc (unat nbytes)"
  shows "bloom_init2 F can_alloc h entries' error' =
    (0, \<lparr>entries = entries', error = error', bits = w, bytes = nbytes,
          hashes = d_to_u8 F (d_ceil F (d_mul F (d_lit F 0.693147180559945) bpe')),
          bpe = bpe', bf = Suc (length h), ready = True, major = 2, minor = 1\<rparr>,
     h @ [Some (replicate (unat nbytes) 0)])"
proof (cases "w mod 8 \<noteq> 0")
  case True
  with nv room show ?thesis
    unfolding w_def nbytes_def bpe'_def
    by (simp add: bloom_init2_def zero_bloom_def Let_def alloc_def
        BLOOM_VERSION_MAJOR_def BLOOM_VERSION_MINOR_def)
next
  case False
  with nv room show ?thesis
    unfolding w_def nbytes_def bpe'_def
    by (simp add: bloom_init2_def zero_bloom_def Let_def alloc_def
        BLOOM_VERSION_MAJOR_def BLOOM_VERSION_MINOR_def)
qed

lemma bloom_init2_no_memory:
  fixes F :: float_ops and entries' :: u64 and error' :: real and can_alloc :: "nat \<Rightarrow> bool"
    and h :: heap
  defines "bpe' \<equiv> ld_to_d F (ld_div F (- ld_log F error') (d_lit F 0.480453013918201))"
  defines "w \<equiv> ld_to_u64 F (ld_mul F (ld_of_u64 F entries') bpe')"
  defines "nbytes \<equiv> (if w mod 8 \<noteq> 0 then w div 8 + 1 else w div 8)"
  assumes nv: "\<not> (entries' < 1000 \<or> error' \<le> 0 \<or> 1 \<le> error')"
    and room: "\<not> can_alloc (unat nbytes)"
  shows "fst (bloom_init2 F can_alloc h entries' error') = 1"
proof (cases "w mod 8 \<noteq> 0")
  case True
  with nv room show ?thesis
    unfolding w_def nbytes_def bpe'_def
    by (simp add: bloom_init2_def zero_bloom_def Let_def alloc_def)
next
  case False
  with nv room show ?thesis
    unfolding w_def nbytes_def bpe'_def
    by (simp add: bloom_init2_def zero_bloom_def Let_def alloc_def)
qed

subsection \<open>Loading a single file\<close>

lemma length_magic [simp]: "length BLOOM_MAGIC = 9"
  by (simp add: BLOOM_MAGIC_def)

lemma zero_bloom_unready [simp]: "zero_bloom\<lparr>ready := False\<rparr> = zero_bloom" "\<not> ready zero_bloom"
  by (simp_all add: zero_bloom_def)

lemmas load_defs = bloom_load_def first_failed_check_def fread_def load_error_def Let_def
  alloc_def BLOOM_VERSION_MAJOR_def

lemma bloom_load_opened:
  fixes L :: "'f::zero layout" and can_alloc :: "nat \<Rightarrow> bool" and fs :: files and h :: heap
    and b0 :: "'f bloom" and name :: string and c :: "u8 list"
  assumes sized: "layout_sized L"
    and name: "name \<noteq> []" and opened: "fs name = Some c"
  defines "sz \<equiv> sizeof_bloom L"
  defines "r \<equiv> bloom_load L can_alloc fs h (Some b0) (Some name)"
  defines "k \<equiv> first_failed_check L can_alloc fs (Some b0) (Some name)"
  shows "fst r = int k \<and> k \<noteq> 1 \<and> k \<noteq> 2 \<and> k \<noteq> 3 \<and>
    (k \<noteq> 0 \<longrightarrow> (\<exists>b. fst (snd r) = Some b \<and> \<not> ready b))"
proof -
  have full: "of_bytes L (take sz xs @ drop sz (to_bytes L b)) = of_bytes L (take sz xs)" for xs b
    using sized by (simp add: layout_sized_def sz_def)
  consider (c4) "length c < 9"
    | (c5) "9 \<le> length c" "take 9 c \<noteq> BLOOM_MAGIC"
    | (c6) "9 \<le> length c" "take 9 c = BLOOM_MAGIC" "length c < 11"
    | (c7) "11 \<le> length c" "take 9 c = BLOOM_MAGIC"
        "unat (u16_of_bytes (take 2 (drop 9 c))) \<noteq> sz"
    | (c8) "11 \<le> length c" "take 9 c = BLOOM_MAGIC"
        "unat (u16_of_bytes (take 2 (drop 9 c))) = sz" "length c < 11 + sz"
    | (c9) "11 + sz \<le> length c" "take 9 c = BLOOM_MAGIC"
        "unat (u16_of_bytes (take 2 (drop 9 c))) = sz"
    by linarith
  then show ?thesis
  proof cases
    case c4
    then show ?thesis
      using name opened by (auto simp: r_def k_def load_defs)
  next
    case c5
    then show ?thesis
      using name opened by (auto simp: r_def k_def load_defs)
  next
    case c6
    then show ?thesis
      using name opened by (auto simp: r_def k_def load_defs)
  next
    case c7
    then show ?thesis
      using name opened by (auto simp: r_def k_def load_defs sz_def)
  next
    case c8
    then show ?thesis
      using name opened by (auto simp: r_def k_def load_defs sz_def)
  next
    case c9
    define meta where "meta = of_bytes L (take sz (drop 11 c))"
    have m: "of_bytes L (take sz (drop 11 c) @ drop sz (to_bytes L b)) = meta" for b
      by (simp add: full meta_def)
    from c9 have l: "9 \<le> length c" "11 \<le> length c" "\<not> length c < 9" "\<not> length c < 11"
      "\<not> length c < 11 + sz" "min (length c - 11) sz = sz" "min (length c - 9) 2 = 2"
      "min (length c) 9 = 9"
      by simp_all
    consider (v) "major meta \<noteq> 2"
      | (a) "major meta = 2" "\<not> can_alloc (unat (bytes meta))"
      | (s) "major meta = 2" "can_alloc (unat (bytes meta))"
          "length c < 11 + sz + unat (bytes meta)"
      | (ok) "major meta = 2" "can_alloc (unat (bytes meta))"
          "11 + sz + unat (bytes meta) \<le> length c"
      by linarith
    then show ?thesis
    proof cases
      case v
      then show ?thesis
        using name opened c9 l
        by (auto simp: r_def k_def load_defs sz_def [symmetric] m meta_def [symmetric])
    next
      case a
      then show ?thesis
        using name opened c9 l
        by (auto simp: r_def k_def load_defs sz_def [symmetric] m meta_def [symmetric])
    next
      case s
      then show ?thesis
        using name opened c9 l
        by (auto simp: r_def k_def load_defs sz_def [symmetric] m meta_def [symmetric])
    next
      case ok
      then show ?thesis
        using name opened c9 l
        by (auto simp: r_def k_def load_defs sz_def [symmetric] m meta_def [symmetric])
    qed
  qed
qed

subsection \<open>Loading two files\<close>

lemma block_append_old: "p \<le> length h \<Longrightarrow> block (h @ [x]) p = block h p"
  by (auto simp: block_def nth_append)

lemma live_blocks_append_None: "live_blocks (h @ [None]) = live_blocks h"
proof -
  have "block (h @ [None]) (Suc (length h)) = None" by (simp add: block_def)
  moreover have "filter (\<lambda>p. block (h @ [None]) p \<noteq> None) [1..<Suc (length h)]
      = filter (\<lambda>p. block h p \<noteq> None) [1..<Suc (length h)]"
    by (rule filter_cong) (auto simp: block_append_old)
  ultimately show ?thesis by (simp add: live_blocks_def)
qed

lemma alloc_write_free:
  "free_block (write_bytes (h @ [Some bs]) (Suc (length h)) got) (Suc (length h)) = h @ [None]"
  by (simp add: free_block_def write_bytes_def block_def store_block_def)

lemma alloc_write_all:
  "length got = n \<Longrightarrow>
   write_bytes (h @ [Some (replicate n 0)]) (Suc (length h)) got = h @ [Some got]"
  by (simp add: write_bytes_def block_def store_block_def)

lemmas loadcustom_defs = bloom_loadcustom_def loadcustom_cause_def fread_def Let_def alloc_def

lemma bloom_loadcustom_opened:
  fixes L :: "'f::zero layout" and can_alloc :: "nat \<Rightarrow> bool" and fs :: files and h :: heap
    and bloom :: "'f bloom" and name :: string and m d :: "u8 list"
  assumes sized: "layout_sized L"
    and name: "name \<noteq> []"
    and str: "fs (take 67 (name @ ''.blm'')) = Some m"
    and dat: "fs (take 67 (name @ ''.dat'')) = Some d"
  defines "r \<equiv> bloom_loadcustom L can_alloc fs h bloom (Some name)"
  defines "cause \<equiv> loadcustom_cause L can_alloc fs (Some name)"
  shows "cause \<noteq> NoName \<and> cause \<noteq> MissingFile \<and>
    (cause = Loaded \<longrightarrow> fst r = 0) \<and> (cause \<noteq> Loaded \<longrightarrow> fst r = 1) \<and>
    (cause = ShortMetadata \<longrightarrow> snd (snd r) = h) \<and>
    (cause = NoMemory \<longrightarrow> snd r = (zero_bloom, h)) \<and>
    (cause = ShortBuffer \<longrightarrow> snd r = (zero_bloom, h @ [None]))"
proof -
  define sz where "sz = sizeof_bloom L"
  define meta where "meta = of_bytes L (take sz m)"
  have full: "of_bytes L (take sz m @ drop sz (to_bytes L b)) = meta" for b
    using sized by (simp add: layout_sized_def sz_def meta_def)
  consider (sm) "length m < sz"
    | (nm) "sz \<le> length m" "\<not> can_alloc (unat (bytes meta))"
    | (sb) "sz \<le> length m" "can_alloc (unat (bytes meta))" "length d < unat (bytes meta)"
    | (ok) "sz \<le> length m" "can_alloc (unat (bytes meta))" "unat (bytes meta) \<le> length d"
    by linarith
  then show ?thesis
  proof cases
    case sm
    then show ?thesis
      using name str dat
      by (auto simp: r_def cause_def loadcustom_defs sz_def [symmetric])
  next
    case nm
    then have l: "min (length m) sz = sz" "\<not> length m < sz" by simp_all
    from nm show ?thesis
      using name str dat l
      by (auto simp: r_def cause_def loadcustom_defs sz_def [symmetric] full
          meta_def [symmetric])
  next
    case sb
    then have l: "min (length m) sz = sz" "\<not> length m < sz" by simp_all
    from sb show ?thesis
      using name str dat l
      by (auto simp: r_def cause_def loadcustom_defs sz_def [symmetric] full
          meta_def [symmetric] alloc_write_free)
  next
    case ok
    then have l: "min (length m) sz = sz" "\<not> length m < sz" by simp_all
    from ok show ?thesis
      using name str dat l
      by (auto simp: r_def cause_def loadcustom_defs sz_def [symmetric] full
          meta_def [symmetric])
  qed
qed

subsection \<open>Saving\<close>

lemma u16_roundtrip: "u16_of_bytes (u16_bytes w) = w"
  unfolding u16_of_bytes_def u16_bytes_def
  by (rule bit_eqI) (auto simp: bit_simps)

lemma length_u16_bytes [simp]: "length (u16_bytes w) = 2"
  by (simp add: u16_bytes_def)

lemma file_bytes_upd [simp]: "file_bytes (fs(path \<mapsto> c)) path = c"
  by (simp add: file_bytes_def)

lemma write_fd_all:
  "pos + length bs \<le> capacity path \<Longrightarrow>
   write_fd capacity fs path pos bs =
     (length bs, fs(path \<mapsto> take pos (file_bytes fs path) @ bs @
        drop (pos + length bs) (file_bytes fs path)))"
  by (simp add: write_fd_def Let_def)

lemma read_bytes_block:
  "block h p = Some buf \<Longrightarrow> n \<le> length buf \<Longrightarrow> read_bytes h p n = Some (take n buf)"
  by (simp add: read_bytes_def)

lemma bloom_save_posix:
  fixes L :: "'f layout"
  assumes sized: "layout_sized L"
    and name: "name \<noteq> []" "can_create name"
    and room: "11 + sizeof_bloom L + unat (bytes bloom) \<le> capacity name"
    and buf: "block h (bf bloom) = Some buf" "unat (bytes bloom) \<le> length buf"
  shows "\<exists>rest. bloom_save False L can_create capacity io fs h bloom (Some name) =
    Inr (0, fs(name \<mapsto> BLOOM_MAGIC @ u16_bytes (of_nat (sizeof_bloom L)) @ to_bytes L bloom @
      take (unat (bytes bloom)) buf @ rest))"
proof -
  define old where "old = file_bytes fs name"
  define sz where "sz = sizeof_bloom L"
  define nb where "nb = unat (bytes bloom)"
  have img: "length (to_bytes L bloom) = sz" using sized by (simp add: layout_sized_def sz_def)
  let ?m = BLOOM_MAGIC
  let ?s = "u16_bytes (of_nat sz)"
  let ?i = "to_bytes L bloom"
  let ?d = "take nb buf"
  have ld: "length ?d = nb" using buf(2) by (simp add: nb_def)
  define c1 where "c1 = ?m @ drop 9 old"
  define c2 where "c2 = take 9 c1 @ ?s @ drop 11 c1"
  define c3 where "c3 = take 11 c2 @ ?i @ drop (11 + sz) c2"
  define c4 where "c4 = take (11 + sz) c3 @ ?d @ drop (11 + sz + nb) c3"
  have r1: "0 + length ?m \<le> capacity name" using room by simp
  have w1: "write_fd capacity (fs(name \<mapsto> old)) name 0 ?m = (9, fs(name \<mapsto> c1))"
    using write_fd_all [where capacity = capacity and path = name and fs = "fs(name \<mapsto> old)", OF r1] by (simp add: c1_def)
  have l1: "9 \<le> length c1" by (simp add: c1_def)
  have r2: "9 + length ?s \<le> capacity name" using room by simp
  have w2: "write_fd capacity (fs(name \<mapsto> c1)) name 9 ?s = (2, fs(name \<mapsto> c2))"
    using write_fd_all [where capacity = capacity and path = name and fs = "fs(name \<mapsto> c1)", OF r2] by (simp add: c2_def)
  have l2: "11 \<le> length c2" using l1 by (simp add: c2_def)
  have r3: "11 + length ?i \<le> capacity name" using room img by (simp add: sz_def)
  have w3: "write_fd capacity (fs(name \<mapsto> c2)) name 11 ?i = (sz, fs(name \<mapsto> c3))"
    using write_fd_all [where capacity = capacity and path = name and fs = "fs(name \<mapsto> c2)", OF r3] img by (simp add: c3_def)
  have l3: "11 + sz \<le> length c3" using l2 img by (simp add: c3_def)
  have r4: "(11 + sz) + length ?d \<le> capacity name" using room ld by (simp add: sz_def nb_def)
  have w4: "write_fd capacity (fs(name \<mapsto> c3)) name (11 + sz) ?d = (nb, fs(name \<mapsto> c4))"
    using write_fd_all [where capacity = capacity and path = name and fs = "fs(name \<mapsto> c3)", OF r4] ld by (simp add: c4_def add.assoc)
  have run: "bloom_save False L can_create capacity io fs h bloom (Some name) =
      Inr (0, fs(name \<mapsto> c4))"
    using name w1 w2 w3 w4 read_bytes_block [OF buf]
    by (simp add: bloom_save_def Let_def old_def [symmetric] sz_def [symmetric]
        nb_def [symmetric])
  have t1: "take 9 c1 = ?m" by (simp add: c1_def)
  have t2: "take 11 c2 = ?m @ ?s" using l1 by (simp add: c2_def t1)
  have t3: "take (11 + sz) c3 = ?m @ ?s @ ?i" using l2 img by (simp add: c3_def t2)
  have "c4 = ?m @ ?s @ ?i @ ?d @ drop (11 + sz + nb) c3" by (simp add: c4_def t3)
  with run show ?thesis by (auto simp: sz_def nb_def)
qed

lemma fwrite_unbuffered:
  assumes "bs \<noteq> []"
  shows "fwrite Unbuffered capacity fs (path, pos, []) bs =
    (min (length bs) (capacity path - pos), snd (write_fd capacity fs path pos bs),
     (path, pos + min (length bs) (capacity path - pos), []))"
proof (cases "length bs \<le> capacity path - pos")
  case True
  with assms show ?thesis
    by (simp add: fwrite_def buffer_room_def buffer_keeps_def write_fd_def Let_def min_absorb1)
next
  case False
  then have "min (length bs) (capacity path - pos) = capacity path - pos"
    and "capacity path - pos \<noteq> length bs"
    by simp_all
  with assms show ?thesis
    by (simp add: fwrite_def buffer_room_def buffer_keeps_def write_fd_def Let_def)
qed

text \<open>
  A stream that was just opened, one \<open>fwrite\<close> and the \<open>fclose\<close>: with room for the bytes in
  the file, the count is complete and the file holds the bytes once the stream is closed,
  whatever part of them the buffer held back in between.
\<close>

lemma fwrite_fresh:
  assumes "length bs \<le> capacity path" and "fs path = Some []"
  shows "\<exists>k\<le>length bs. fwrite io capacity fs (path, 0, []) bs =
    (length bs, fs(path \<mapsto> take k bs), (path, k, drop k bs))"
proof (cases "length bs \<le> buffer_room io")
  case True
  have "fs(path \<mapsto> []) = fs" using assms(2) by (simp add: fun_upd_idem)
  with True show ?thesis
    by (intro exI [of _ 0]) (simp add: fwrite_def)
next
  case False
  define k where "k = length bs - buffer_keeps io 0 (length bs)"
  have k: "k \<le> length bs" by (simp add: k_def)
  then have "0 + length (take k bs) \<le> capacity path" using assms(1) by simp
  from write_fd_all [where capacity = capacity and path = path and fs = fs, OF this] assms(2) k
  have "write_fd capacity fs path 0 (take k bs) = (k, fs(path \<mapsto> take k bs))"
    by (simp add: file_bytes_def min_absorb2)
  with False k show ?thesis
    by (intro exI [of _ k]) (simp add: fwrite_def Let_def k_def [symmetric] min_absorb2)
qed

lemma fclose_rest:
  assumes "length bs \<le> capacity path" and "fs path = Some (take k bs)" and "k \<le> length bs"
  shows "fclose capacity fs (path, k, drop k bs) = fs(path \<mapsto> bs)"
proof -
  have "k + length (drop k bs) \<le> capacity path" using assms(1,3) by simp
  from write_fd_all [where capacity = capacity and path = path and fs = fs, OF this] assms(2,3)
  show ?thesis by (simp add: fclose_def file_bytes_def min_absorb2)
qed

lemma bloom_load_saved:
  fixes L :: "'f::zero layout"
  assumes sized: "layout_sized L"
    and image: "of_bytes L (to_bytes L bloom) = bloom"
    and small: "sizeof_bloom L < 65536"
    and name: "name \<noteq> []"
    and saved: "fs name = Some (BLOOM_MAGIC @ u16_bytes (of_nat (sizeof_bloom L)) @ to_bytes L bloom @
        data @ rest)"
    and data: "length data = unat (bytes bloom)"
    and version: "major bloom = 2"
    and room: "can_alloc (unat (bytes bloom))"
  shows "bloom_load L can_alloc fs h (Some b0) (Some name) =
    (0, Some (bloom\<lparr>bf := Suc (length h)\<rparr>), h @ [Some data])"
proof -
  have img: "length (to_bytes L b) = sizeof_bloom L" for b
    using sized by (simp add: layout_sized_def)
  have sz: "unat (u16_of_bytes (u16_bytes (of_nat (sizeof_bloom L)))) = sizeof_bloom L"
    using small by (simp add: u16_roundtrip unat_of_nat take_bit_nat_eq_self)
  show ?thesis
    using name saved data version room
    by (simp add: bloom_load_def fread_def Let_def img sz image alloc_def
        BLOOM_VERSION_MAJOR_def alloc_write_all)
qed

section \<open>The properties\<close>

lemmas demo_eval = demo_hash_def demo_bloom_def demo_heap_def bloom_add_def bloom_check_def
  bloom_check_add_def check_add_loop.simps test_bit_set_bit_def load_byte_def store_byte_def
  block_def store_block_def bit_index_def Let_def

text \<open>
  C1 (no false negatives). On a ready filter, once \<open>bloom_add\<close> of an element has
  returned, \<open>bloom_check\<close> of that element returns 1, whatever the state before the insert
  was and whatever elements are inserted afterwards.
\<close>

theorem no_false_negatives:
  assumes "ready bloom"
    and "bloom_add XXH64 bloom h data = Inr (r, h1)"
    and "bloom_add_seq XXH64 bloom h1 others = Inr h2"
  shows "bloom_check XXH64 bloom h2 data = Inr (1, h2)"
  using holds_check [OF assms(1) add_seq_preserves [OF assms(1,3) add_establishes [OF assms(1,2)]]] .

theorem no_false_negatives_witness:
  "ready demo_bloom \<and>
   bloom_add demo_hash demo_bloom demo_heap [] = Inr (0, [Some [3, 128, 0]]) \<and>
   bloom_add_seq demo_hash demo_bloom [Some [3, 128, 0]] [[7], [1, 2]] = Inr [Some [47, 128, 0]] \<and>
   bloom_check demo_hash demo_bloom [Some [47, 128, 0]] [] = Inr (1, [Some [47, 128, 0]])"
proof -
  have r: "ready demo_bloom" by (simp add: demo_bloom_def)
  have a: "bloom_add demo_hash demo_bloom demo_heap [] = Inr (0, [Some [3, 128, 0]])"
    by (simp add: demo_eval)
  have s: "bloom_add_seq demo_hash demo_bloom [Some [3, 128, 0]] [[7], [1, 2]]
      = Inr [Some [47, 128, 0]]"
    by (simp add: demo_eval)
  from no_false_negatives [OF r a s] r a s show ?thesis by simp
qed

text \<open>
  The query and the insert need at least one bit: with \<open>bits = 0\<close> the index of the first
  round is a remainder modulo zero.
\<close>

lemma query_without_bits_faults:
  assumes "ready bloom" and "hashes bloom \<noteq> 0" and "bits bloom = 0"
  shows "bloom_check XXH64 bloom h data = Inl DivideByZero"
    and "bloom_add XXH64 bloom h data = Inl DivideByZero"
proof -
  have "0 < hashes bloom" using assms(2) by (simp add: word_greater_zero_iff)
  then show "bloom_check XXH64 bloom h data = Inl DivideByZero"
    and "bloom_add XXH64 bloom h data = Inl DivideByZero"
    using assms
    by (simp_all add: bloom_check_def bloom_add_def bloom_check_add_def Let_def
        check_add_loop.simps [of bloom _ _ _ h 0 0])
qed

text \<open>
  C2 (query). The filter \<open>no_bits_bloom\<close>, which \<open>bloom_init2\<close> leaves for 1000 entries and the
  error rate 0.9999, is ready and has no bit. On it \<open>bloom_check\<close> answers neither 0 nor 1: the
  index of the first round is a remainder modulo \<open>bits = 0\<close>, and the call ends in a division
  by zero.
\<close>

theorem query_traps_without_bits:
  "ready no_bits_bloom \<and>
   bloom_check demo_hash no_bits_bloom [Some []] [7] = Inl DivideByZero"
proof -
  have "ready no_bits_bloom" "hashes no_bits_bloom \<noteq> 0" "bits no_bits_bloom = 0"
    by (simp_all add: no_bits_bloom_def)
  then show ?thesis by (simp add: query_without_bits_faults(1))
qed

text \<open>
  On every other filter the query is as the specification has it. On an unready filter
  \<open>bloom_check\<close> returns -1 and leaves every heap as it is, whatever \<open>bf\<close> points to. On a
  ready filter with at least one bit it returns 1 if all indexed bits are set and 0
  otherwise, and the heap is unchanged. It stops at the first unset bit: the answer is 0 as
  soon as the indices before it are set, also when later indices lie outside the buffer,
  which a read of them would turn into a fault.
\<close>

lemma bloom_check_query:
  "(\<not> ready bloom \<longrightarrow> bloom_check XXH64 bloom h data = Inr (- 1, h)) \<and>
   (ready_filter bloom h buf \<longrightarrow>
      bloom_check XXH64 bloom h data =
        Inr (if \<forall>x\<in>set (bloom_indices XXH64 bloom data). bit_at buf x then 1 else 0, h)) \<and>
   (ready bloom \<and> block h (bf bloom) = Some buf \<and> bits bloom \<noteq> 0 \<and>
    bloom_indices XXH64 bloom data = ys @ z # zs \<and>
    (\<forall>y\<in>set ys. bit_at buf y) \<and> z div 8 < length buf \<and> \<not> bit_at buf z \<longrightarrow>
      bloom_check XXH64 bloom h data = Inr (0, h))"
proof (intro conjI impI)
  assume "\<not> ready bloom"
  then show "bloom_check XXH64 bloom h data = Inr (- 1, h)"
    by (simp add: bloom_check_def bloom_check_add_def)
next
  assume "ready_filter bloom h buf"
  then show "bloom_check XXH64 bloom h data =
      Inr (if \<forall>x\<in>set (bloom_indices XXH64 bloom data). bit_at buf x then 1 else 0, h)"
    by (rule ready_filter_check)
next
  assume a: "ready bloom \<and> block h (bf bloom) = Some buf \<and> bits bloom \<noteq> 0 \<and>
    bloom_indices XXH64 bloom data = ys @ z # zs \<and>
    (\<forall>y\<in>set ys. bit_at buf y) \<and> z div 8 < length buf \<and> \<not> bit_at buf z"
  then have "check_list buf (bloom_indices XXH64 bloom data) = Inr 0"
    using check_list_short [of ys buf z zs] by simp
  with a show "bloom_check XXH64 bloom h data = Inr (0, h)"
    using bloom_check_eq [of bloom h buf XXH64 data] by simp
qed

lemma bloom_check_query_example:
  "bloom_check demo_hash (demo_bloom\<lparr>ready := False\<rparr>) [] [] = Inr (- 1, []) \<and>
   bloom_check demo_hash demo_bloom [Some [3, 128, 0]] [] = Inr (1, [Some [3, 128, 0]]) \<and>
   bloom_check demo_hash demo_bloom [Some [1, 128]] [] = Inr (0, [Some [1, 128]])"
proof -
  have "[0..<3] = [0, 1, 2 :: nat]" by (simp add: numeral_3_eq_3 numeral_2_eq_2)
  then have i: "bloom_indices demo_hash demo_bloom [] = [15, 0, 1]"
    by (simp add: bloom_indices_def index_of_def bit_index_def demo_hash_def demo_bloom_def)
  have u: "\<not> ready (demo_bloom\<lparr>ready := False\<rparr>)" by simp
  have f: "ready_filter demo_bloom [Some [3, 128, 0]] [3, 128, 0]"
    by (simp add: ready_filter_def demo_bloom_def block_def)
  have s: "ready demo_bloom \<and> block [Some [1, 128]] (bf demo_bloom) = Some [1, 128] \<and>
      bits demo_bloom \<noteq> 0 \<and> bloom_indices demo_hash demo_bloom [] = [15, 0] @ 1 # [] \<and>
      (\<forall>y\<in>set [15, 0]. bit_at [1, 128] y) \<and> 1 div 8 < length [1 :: u8, 128] \<and>
      \<not> bit_at [1, 128] 1"
  proof -
    have "ready demo_bloom \<and> block [Some [1, 128]] (bf demo_bloom) = Some [1, 128] \<and>
        bits demo_bloom \<noteq> 0"
      by (simp add: demo_bloom_def block_def)
    moreover have "(\<forall>y\<in>set [15, 0]. bit_at [1, 128] y) \<and> 1 div 8 < length [1 :: u8, 128] \<and>
        \<not> bit_at [1, 128] 1"
      by (simp add: bit_at_def)
    ultimately show ?thesis using i by simp
  qed
  have a: "\<forall>x\<in>set (bloom_indices demo_hash demo_bloom []). bit_at [3, 128, 0] x"
    by (simp add: i bit_at_def)
  from bloom_check_query [of "demo_bloom\<lparr>ready := False\<rparr>" demo_hash "[]" "[]"] u
  have 1: "bloom_check demo_hash (demo_bloom\<lparr>ready := False\<rparr>) [] [] = Inr (- 1, [])"
    by blast
  from bloom_check_query [of demo_bloom demo_hash "[Some [3, 128, 0]]" "[]" "[3, 128, 0]"] f a
  have 2: "bloom_check demo_hash demo_bloom [Some [3, 128, 0]] [] = Inr (1, [Some [3, 128, 0]])"
    by simp
  from bloom_check_query [of demo_bloom demo_hash "[Some [1, 128]]" "[]" "[1, 128]" "[15, 0]" 1 "[]"] s
  have 3: "bloom_check demo_hash demo_bloom [Some [1, 128]] [] = Inr (0, [Some [1, 128]])"
    by blast
  from 1 2 3 show ?thesis by simp
qed

text \<open>
  C3 (insert). On the ready filter without bits, \<open>no_bits_bloom\<close>, \<open>bloom_add\<close> sets no bit and
  returns neither 0 nor 1: it ends in the same division by zero as the query.
\<close>

theorem insert_traps_without_bits:
  "ready no_bits_bloom \<and>
   bloom_add demo_hash no_bits_bloom [Some []] [7] = Inl DivideByZero"
proof -
  have "ready no_bits_bloom" "hashes no_bits_bloom \<noteq> 0" "bits no_bits_bloom = 0"
    by (simp_all add: no_bits_bloom_def)
  then show ?thesis by (simp add: query_without_bits_faults(2))
qed

text \<open>
  On a ready filter with at least one bit the insert is as the specification has it:
  \<open>bloom_add\<close> returns 1 if all indexed bits were set before the call and 0 otherwise; in the
  heap it returns, the buffer of the filter has every indexed bit set and differs from the
  old buffer in the indexed bits only, and every other block is as before.
\<close>

lemma bloom_add_insert:
  assumes "ready_filter bloom h buf"
  shows "\<exists>h' buf'.
    bloom_add XXH64 bloom h data =
      Inr (if \<forall>x\<in>set (bloom_indices XXH64 bloom data). bit_at buf x then 1 else 0, h') \<and>
    block h' (bf bloom) = Some buf' \<and>
    (\<forall>p. p \<noteq> bf bloom \<longrightarrow> block h' p = block h p) \<and>
    length buf' = length buf \<and>
    (\<forall>x\<in>set (bloom_indices XXH64 bloom data). bit_at buf' x) \<and>
    (\<forall>y. bit_at buf' y \<longleftrightarrow> y \<in> set (bloom_indices XXH64 bloom data) \<or> bit_at buf y)"
proof -
  let ?buf' = "foldl set_bit_at buf (bloom_indices XXH64 bloom data)"
  from assms have b: "block h (bf bloom) = Some buf" by (simp add: ready_filter_def)
  show ?thesis
    using ready_filter_add [OF assms, of XXH64 data]
      bit_at_foldl_set_bit_at [OF ready_filter_in_bounds [OF assms, of XXH64 data]]
      block_store_same [OF b, of ?buf'] block_store_other [OF b, of _ ?buf']
    by (intro exI [of _ "store_block h (bf bloom) ?buf'"] exI [of _ ?buf']) simp
qed

lemma bloom_add_insert_example:
  "bloom_add demo_hash demo_bloom demo_heap [] = Inr (0, [Some [3, 128, 0]]) \<and>
   bloom_indices demo_hash demo_bloom [] = [15, 0, 1]"
proof -
  have "[0..<3] = [0, 1, 2 :: nat]" by (simp add: numeral_3_eq_3 numeral_2_eq_2)
  then have "bloom_indices demo_hash demo_bloom [] = [15, 0, 1]"
    by (simp add: bloom_indices_def index_of_def bit_index_def demo_hash_def demo_bloom_def)
  moreover have "bloom_add demo_hash demo_bloom demo_heap [] = Inr (0, [Some [3, 128, 0]])"
    by (simp add: demo_eval)
  ultimately show ?thesis by simp
qed

text \<open>
  The filter without bits is what construction gives for 1000 entries and the error rate
  0.9999, here with arithmetic that does not round (the product of the entries and the
  bits per element is about 0.2, far from 1).
\<close>

lemma init2_zero_bits_example:
  "bloom_init2 exact_float_ops plenty [] 1000 (9999 / 10000) = (0, no_bits_bloom, [Some []])"
proof -
  define t where "t = - ln (9999 / 10000 :: real) / 0.480453013918201"
  have "ln (9999 / 10000 :: real) < 0" by (rule ln_less_zero) simp_all
  moreover have "- (1 / 10000) - 2 * (1 / 10000)\<^sup>2 \<le> ln (1 - 1 / 10000 :: real)"
    by (rule ln_one_minus_pos_lower_bound) simp_all
  then have "- (2 / 10000) \<le> ln (9999 / 10000 :: real)" by (simp add: power2_eq_square)
  ultimately have lo: "0 < t" and hi: "t < 1 / 2000" by (simp_all add: t_def)
  have nv: "\<not> ((1000 :: u64) < 1000 \<or> (9999 / 10000 :: real) \<le> 0 \<or> 1 \<le> (9999 / 10000 :: real))"
    by simp
  have "0 \<le> real (unat (1000 :: u64)) * t" and "real (unat (1000 :: u64)) * t < 1"
    using lo hi by simp_all
  then have f: "\<lfloor>real (unat (1000 :: u64)) * t\<rfloor> = 0" by (simp add: floor_eq_iff)
  have c: "\<lceil>0.693147180559945 * t\<rceil> = 1" using lo hi by (simp add: ceiling_eq_iff)
  have p: "0 \<le> real (unat (1000 :: u64)) * t" using lo by simp
  have b: "ld_to_d exact_float_ops (ld_div exact_float_ops (- ld_log exact_float_ops (9999 / 10000))
      (d_lit exact_float_ops 0.480453013918201)) = t"
    by (simp add: exact_float_ops_def t_def)
  have w: "ld_to_u64 exact_float_ops (ld_mul exact_float_ops (ld_of_u64 exact_float_ops 1000) t) = 0"
    using f p by (simp add: exact_float_ops_def)
  have k: "d_to_u8 exact_float_ops (d_ceil exact_float_ops
      (d_mul exact_float_ops (d_lit exact_float_ops 0.693147180559945) t)) = 1"
    using c by (simp add: exact_float_ops_def)
  have room: "plenty (unat (if (0 :: u64) mod 8 \<noteq> 0 then 0 div 8 + 1 else 0 div 8))"
    by (simp add: plenty_def)
  from bloom_init2_accepts [where F = exact_float_ops and can_alloc = plenty and h = "[]",
      OF nv, unfolded b w k, OF room]
  show ?thesis by (simp add: no_bits_bloom_def t_def)
qed

text \<open>
  C4 (indexing), as amended. On a ready filter with at least one bit (its buffer of
  \<open>bytes\<close> bytes covering the \<open>bits\<close> bits), with \<open>a = hash64(data, 0x59f2815b16f81798)\<close> and
  \<open>b = hash64(data, a)\<close>, round \<open>i\<close> of both the query and the insert addresses bit
  \<open>((a + b * i) mod 2^64) mod bitCount\<close>: the sum is reduced modulo \<open>2^64\<close> first. Bit \<open>x\<close> is
  bit \<open>x mod 8\<close> of byte \<open>x div 8\<close>, bit 0 the least significant. The query answers 1 exactly
  when these bits are set; the insert answers likewise and leaves a buffer in which exactly
  these bits have been added, every other block of the heap being as before.
\<close>

theorem index_scheme:
  fixes XXH64 :: hash64 and bloom :: "'f bloom" and data :: "u8 list"
  defines "a \<equiv> XXH64 data 0x59f2815b16f81798"
  defines "b \<equiv> XXH64 data a"
  defines "xs \<equiv> map (\<lambda>i. ((unat a + unat b * i) mod 2 ^ 64) mod unat (bits bloom))
                    [0..<unat (hashes bloom)]"
  assumes rf: "ready_filter bloom h buf"
  shows "bloom_check XXH64 bloom h data =
      Inr (if \<forall>x\<in>set xs. bit (buf ! (x div 8)) (x mod 8) then 1 else 0, h) \<and>
    (\<exists>h' buf'. bloom_add XXH64 bloom h data =
        Inr (if \<forall>x\<in>set xs. bit (buf ! (x div 8)) (x mod 8) then 1 else 0, h') \<and>
      block h' (bf bloom) = Some buf' \<and>
      (\<forall>p. p \<noteq> bf bloom \<longrightarrow> block h' p = block h p) \<and>
      length buf' = length buf \<and>
      (\<forall>n<length buf. \<forall>k<8. bit (buf' ! n) k \<longleftrightarrow> 8 * n + k \<in> set xs \<or> bit (buf ! n) k))"
proof -
  have xs: "xs = bloom_indices XXH64 bloom data"
    by (simp add: xs_def a_def b_def bloom_indices_arith)
  have inb: "\<forall>x\<in>set xs. x div 8 < length buf"
    using ready_filter_in_bounds [OF rf, of XXH64 data] by (simp add: xs)
  then have all: "(\<forall>x\<in>set xs. bit (buf ! (x div 8)) (x mod 8)) = (\<forall>x\<in>set xs. bit_at buf x)"
    by (auto simp: bit_at_def)
  from rf have blk: "block h (bf bloom) = Some buf" by (simp add: ready_filter_def)
  let ?buf' = "foldl set_bit_at buf xs"
  let ?h' = "store_block h (bf bloom) ?buf'"
  have bits: "bit (?buf' ! n) k \<longleftrightarrow> 8 * n + k \<in> set xs \<or> bit (buf ! n) k"
    if "n < length buf" and "k < 8" for n k
  proof -
    have "bit_at ?buf' (8 * n + k) \<longleftrightarrow> 8 * n + k \<in> set xs \<or> bit_at buf (8 * n + k)"
      using bit_at_foldl_set_bit_at [OF inb] by simp
    with that show ?thesis by (simp add: bit_at_def)
  qed
  have "bloom_check XXH64 bloom h data =
      Inr (if \<forall>x\<in>set xs. bit (buf ! (x div 8)) (x mod 8) then 1 else 0, h)"
    using ready_filter_check [OF rf, of XXH64 data] by (simp add: all xs [symmetric])
  moreover have "bloom_add XXH64 bloom h data =
      Inr (if \<forall>x\<in>set xs. bit (buf ! (x div 8)) (x mod 8) then 1 else 0, ?h')"
    using ready_filter_add [OF rf, of XXH64 data] by (simp add: all xs [symmetric])
  moreover have "block ?h' (bf bloom) = Some ?buf'"
    by (rule block_store_same [OF blk])
  moreover have "\<forall>p. p \<noteq> bf bloom \<longrightarrow> block ?h' p = block h p"
    by (simp add: block_store_other [OF blk])
  ultimately show ?thesis
    using bits by (intro conjI exI [of _ ?h'] exI [of _ ?buf']) simp_all
qed

theorem index_scheme_witness:
  "bloom_check demo_hash demo_bloom demo_heap [] = Inr (0, demo_heap) \<and>
   (\<exists>h' buf'. bloom_add demo_hash demo_bloom demo_heap [] = Inr (0, h') \<and>
      block h' 1 = Some buf' \<and> block h' 2 = block demo_heap 2 \<and>
      length buf' = 3 \<and> bit (buf' ! 1) 7 \<and> bit (buf' ! 0) 0 \<and> bit (buf' ! 0) 1 \<and>
      \<not> bit (buf' ! 2) 0)"
proof -
  have u: "[0..<3] = [0, 1, 2 :: nat]" by (simp add: numeral_3_eq_3 numeral_2_eq_2)
  have f: "ready_filter demo_bloom demo_heap [0, 0, 0]"
    by (simp add: ready_filter_def demo_bloom_def demo_heap_def block_def)
  have v: "bf demo_bloom = 1" "unat (hashes demo_bloom) = 3" "unat (bits demo_bloom) = 20"
    by (simp_all add: demo_bloom_def)
  have w: "unat (demo_hash [] 0x59f2815b16f81798) = 18446744073709551615"
    "unat (demo_hash [] (demo_hash [] 0x59f2815b16f81798)) = 1"
    by (simp_all add: demo_hash_def)
  let ?xs = "map (\<lambda>i. ((18446744073709551615 + 1 * i) mod 2 ^ 64) mod 20) [0, 1, 2 :: nat]"
  have xs: "?xs = [15, 0, 1]" by simp
  have n: "\<not> (\<forall>x\<in>set ?xs. bit (([0, 0, 0] :: u8 list) ! (x div 8)) (x mod 8))"
    unfolding xs by simp
  from index_scheme [OF f, of demo_hash "[]", unfolded v w u]
  obtain h' buf' where c: "bloom_check demo_hash demo_bloom demo_heap [] =
        Inr (if \<forall>x\<in>set ?xs. bit (([0, 0, 0] :: u8 list) ! (x div 8)) (x mod 8) then 1 else 0,
             demo_heap)"
    and r: "bloom_add demo_hash demo_bloom demo_heap [] =
        Inr (if \<forall>x\<in>set ?xs. bit (([0, 0, 0] :: u8 list) ! (x div 8)) (x mod 8) then 1 else 0, h')"
    and k: "block h' 1 = Some buf'"
    and o: "\<forall>p. p \<noteq> 1 \<longrightarrow> block h' p = block demo_heap p"
    and l: "length buf' = length [0 :: u8, 0, 0]"
    and b: "\<forall>n<length [0 :: u8, 0, 0]. \<forall>k<8.
        bit (buf' ! n) k \<longleftrightarrow> 8 * n + k \<in> set ?xs \<or> bit (([0, 0, 0] :: u8 list) ! n) k"
    by blast
  from c have "bloom_check demo_hash demo_bloom demo_heap [] = Inr (0, demo_heap)"
    by (simp only: n if_False)
  moreover from r have "bloom_add demo_hash demo_bloom demo_heap [] = Inr (0, h')"
    by (simp only: n if_False)
  moreover from o have "block h' 2 = block demo_heap 2" by simp
  moreover from l have "length buf' = 3" by simp
  moreover from b [unfolded xs, rule_format, of 1 7] have "bit (buf' ! 1) 7" by simp
  moreover from b [unfolded xs, rule_format, of 0 0] have "bit (buf' ! 0) 0" by simp
  moreover from b [unfolded xs, rule_format, of 0 1] have "bit (buf' ! 0) 1" by simp
  moreover from b [unfolded xs, rule_format, of 2 0] have "\<not> bit (buf' ! 2) 0" by simp
  ultimately show ?thesis using k by blast
qed

text \<open>
  The index over the mathematical integers differs: for the demo hash the second round
  would address bit 16, which the insert leaves unset (it sets bit 0 instead).
\<close>

theorem index_scheme_counterexample:
  "bloom_add demo_hash demo_bloom demo_heap [] = Inr (0, [Some [3, 128, 0]]) \<and>
   spec_index (demo_hash [] 0x59f2815b16f81798) (demo_hash [] (demo_hash [] 0x59f2815b16f81798))
     1 (bits demo_bloom) = 16 \<and>
   \<not> bit_at [3, 128, 0] 16"
  by (simp add: demo_eval spec_index_def bit_at_def)

text \<open>
  C9 (construction rejects). With \<open>entries < 1000\<close>, or an error rate that is not inside the
  open interval from 0 to 1, \<open>bloom_init2\<close> and \<open>bloom_dummy\<close> return 1, the structure is all
  zero (so it is not ready and \<open>bf\<close> is \<^verbatim>\<open>NULL\<close>), and the heap is the one before the call,
  whatever the floating-point arithmetic of the platform is.
\<close>

theorem construction_rejects:
  assumes "entries' < 1000 \<or> error' \<le> 0 \<or> 1 \<le> error'"
  shows "bloom_init2 F can_alloc h entries' error' =
      (1, \<lparr>entries = 0, error = 0, bits = 0, bytes = 0, hashes = 0, bpe = 0,
           bf = 0, ready = False, major = 0, minor = 0\<rparr>, h) \<and>
    bloom_dummy F entries' error' =
      (1, \<lparr>entries = 0, error = 0, bits = 0, bytes = 0, hashes = 0, bpe = 0,
           bf = 0, ready = False, major = 0, minor = 0\<rparr>)"
  using assms by (auto simp: bloom_init2_def bloom_dummy_def zero_bloom_def)

theorem construction_rejects_witness:
  "\<forall>F. bloom_init2 F (\<lambda>n. True) demo_heap 999 (1 / 2) =
      (1, \<lparr>entries = 0, error = 0, bits = 0, bytes = 0, hashes = 0, bpe = 0,
           bf = 0, ready = False, major = 0, minor = 0\<rparr>, demo_heap) \<and>
   bloom_dummy F 5000 1 =
      (1, \<lparr>entries = 0, error = 0, bits = 0, bytes = 0, hashes = 0, bpe = 0,
           bf = 0, ready = False, major = 0, minor = 0\<rparr>)"
proof
  fix F
  have a: "(999 :: u64) < 1000 \<or> (1 / 2 :: real) \<le> 0 \<or> (1 :: real) \<le> 1 / 2" by simp
  have b: "(5000 :: u64) < 1000 \<or> (1 :: real) \<le> 0 \<or> (1 :: real) \<le> 1" by simp
  from construction_rejects [OF a, of F "\<lambda>n. True" demo_heap] construction_rejects [OF b, of F]
  show "bloom_init2 F (\<lambda>n. True) demo_heap 999 (1 / 2) =
      (1, \<lparr>entries = 0, error = 0, bits = 0, bytes = 0, hashes = 0, bpe = 0,
           bf = 0, ready = False, major = 0, minor = 0\<rparr>, demo_heap) \<and>
   bloom_dummy F 5000 1 =
      (1, \<lparr>entries = 0, error = 0, bits = 0, bytes = 0, hashes = 0, bpe = 0,
           bf = 0, ready = False, major = 0, minor = 0\<rparr>)"
    by simp
qed

text \<open>
  What an accepted construction leaves does not depend on the arithmetic either, as far as
  the integers go: the values of \<open>bpe\<close>, \<open>bits\<close> and \<open>hashes\<close> are those of the platform's
  floating-point operations, \<open>bytes\<close> is \<open>bits\<close> over 8 rounded up, the buffer is a fresh
  block of \<open>bytes\<close> zero bytes, and the filter is ready.
\<close>

lemma bloom_init2_result:
  assumes "bloom_init2 F can_alloc h entries' error' = (0, b, h')"
  shows "1000 \<le> entries' \<and> 0 < error' \<and> error' < 1 \<and>
    entries b = entries' \<and> error b = error' \<and> ready b \<and> major b = 2 \<and> minor b = 1 \<and>
    unat (bytes b) = (unat (bits b) + 7) div 8 \<and> unat (bits b) \<le> 8 * unat (bytes b) \<and>
    block h' (bf b) = Some (replicate (unat (bytes b)) 0) \<and>
    (\<forall>p. p \<noteq> bf b \<longrightarrow> block h' p = block h p)"
proof -
  define bpe' where "bpe' = ld_to_d F (ld_div F (- ld_log F error') (d_lit F 0.480453013918201))"
  define w where "w = ld_to_u64 F (ld_mul F (ld_of_u64 F entries') bpe')"
  define nbytes where "nbytes = (if w mod 8 \<noteq> 0 then w div 8 + 1 else w div 8)"
  have nv: "\<not> (entries' < 1000 \<or> error' \<le> 0 \<or> 1 \<le> error')"
    using assms by (auto simp: bloom_init2_def)
  have room: "can_alloc (unat nbytes)"
  proof (rule ccontr)
    assume "\<not> can_alloc (unat nbytes)"
    from bloom_init2_no_memory [where F = F and can_alloc = can_alloc and h = h,
        OF nv this [unfolded nbytes_def w_def bpe'_def]] assms
    show False by simp
  qed
  note run = bloom_init2_accepts [where F = F and can_alloc = can_alloc and h = h,
      OF nv room [unfolded nbytes_def w_def bpe'_def], folded bpe'_def, folded w_def,
      folded nbytes_def]
  from assms run have b: "b = \<lparr>entries = entries', error = error', bits = w, bytes = nbytes,
      hashes = d_to_u8 F (d_ceil F (d_mul F (d_lit F 0.693147180559945) bpe')),
      bpe = bpe', bf = Suc (length h), ready = True, major = 2, minor = 1\<rparr>"
    and h': "h' = h @ [Some (replicate (unat nbytes) 0)]"
    by simp_all
  have nb: "unat nbytes = (unat w + 7) div 8" unfolding nbytes_def by (rule bytes_of_bits)
  have cover: "unat w \<le> 8 * ((unat w + 7) div 8)" by linarith
  have other: "block h' p = block h p" if "p \<noteq> Suc (length h)" for p
    using that by (auto simp: h' block_def nth_append)
  show ?thesis
    using nv nb cover other by (simp add: b h' block_def not_less not_le)
qed




text \<open>
  A ready filter without rounds is what \<open>bloom_load\<close> returns, with code 0, for a file whose
  metadata say so: the load checks the magic string, the sizes and the major version only.
\<close>

lemma load_gives_no_rounds:
  "bloom_load demo_layout plenty [''g'' \<mapsto> BLOOM_MAGIC @ [4, 0] @ [20, 3, 0, 2] @ [47, 128, 0]] []
     (Some zero_bloom) (Some ''g'') = (0, Some no_rounds_bloom, [Some [47, 128, 0]])"
  by (simp add: bloom_load_def fread_def load_error_def Let_def alloc_def plenty_def
      BLOOM_VERSION_MAJOR_def u16_of_bytes_def demo_layout_def demo_bloom_def no_rounds_bloom_def
      write_bytes_def block_def store_block_def BLOOM_MAGIC_def)

text \<open>
  C7 (single-file load), as amended. The result code of \<open>bloom_load\<close> is the number of the
  first violated check in the order of the specification, and 0 when every check passes,
  so the eleven causes have eleven different codes. With the codes 3 to 11 the filter is
  not ready on return. With code 1 (no file name) the filter is returned as it was passed
  in, and with code 2 there is no filter.
\<close>

theorem bloom_load_checks:
  fixes L :: "'f::zero layout" and can_alloc :: "nat \<Rightarrow> bool" and fs :: files and h :: heap
    and bloom :: "'f bloom option" and filename :: "string option"
  defines "r \<equiv> bloom_load L can_alloc fs h bloom filename"
  defines "k \<equiv> first_failed_check L can_alloc fs bloom filename"
  assumes sized: "layout_sized L"
  shows "fst r = int k \<and>
    (k = 1 \<longrightarrow> snd r = (bloom, h)) \<and>
    (k = 2 \<longrightarrow> snd r = (None, h)) \<and>
    (k \<noteq> 0 \<and> k \<noteq> 1 \<and> k \<noteq> 2 \<longrightarrow> (\<exists>b. fst (snd r) = Some b \<and> \<not> ready b))"
proof (cases filename)
  case None
  then show ?thesis by (simp add: r_def k_def bloom_load_def first_failed_check_def)
next
  case (Some name)
  show ?thesis
  proof (cases "name = []")
    case True
    with Some show ?thesis by (simp add: r_def k_def bloom_load_def first_failed_check_def)
  next
    case name: False
    show ?thesis
    proof (cases bloom)
      case None
      with Some name show ?thesis
        by (simp add: r_def k_def bloom_load_def first_failed_check_def)
    next
      case b0: (Some b0)
      show ?thesis
      proof (cases "fs name")
        case None
        with Some name b0 show ?thesis
          by (simp add: r_def k_def bloom_load_def first_failed_check_def)
      next
        case c: (Some c)
        from bloom_load_opened [where L = L and name = name and fs = fs and c = c
            and can_alloc = can_alloc and h = h and ?b0.0 = b0, OF sized name c] Some b0
        show ?thesis by (auto simp: r_def k_def)
      qed
    qed
  qed
qed

theorem bloom_load_checks_witness:
  "fst (bloom_load demo_layout (\<lambda>n. True) [''f'' \<mapsto> [1, 2, 3, 4, 5, 6, 7, 8, 9, 10]] demo_heap
     (Some demo_bloom) (Some ''f'')) = 5 \<and>
   (\<exists>b. fst (snd (bloom_load demo_layout (\<lambda>n. True) [''f'' \<mapsto> [1, 2, 3, 4, 5, 6, 7, 8, 9, 10]]
     demo_heap (Some demo_bloom) (Some ''f''))) = Some b \<and> \<not> ready b) \<and>
   fst (bloom_load demo_layout (\<lambda>n. True)
     [''g'' \<mapsto> BLOOM_MAGIC @ [4, 0] @ [20, 3, 3, 2] @ [47, 128, 0]] demo_heap
     (Some zero_bloom) (Some ''g'')) = 0"
proof -
  have s: "layout_sized demo_layout" by (simp add: layout_sized_def demo_layout_def)
  have k: "first_failed_check demo_layout (\<lambda>n. True) [''f'' \<mapsto> [1, 2, 3, 4, 5, 6, 7, 8, 9, 10]]
      (Some demo_bloom) (Some ''f'') = 5"
    by (simp add: first_failed_check_def BLOOM_MAGIC_def)
  have k0: "first_failed_check demo_layout (\<lambda>n. True)
      [''g'' \<mapsto> BLOOM_MAGIC @ [4, 0] @ [20, 3, 3, 2] @ [47, 128, 0]]
      (Some zero_bloom) (Some ''g'') = 0"
    by (simp add: first_failed_check_def u16_of_bytes_def demo_layout_def demo_bloom_def)
  from bloom_load_checks [OF s, of "\<lambda>n. True" "[''f'' \<mapsto> [1, 2, 3, 4, 5, 6, 7, 8, 9, 10]]"
      demo_heap "Some demo_bloom" "Some ''f''"]
    bloom_load_checks [OF s, of "\<lambda>n. True"
      "[''g'' \<mapsto> BLOOM_MAGIC @ [4, 0] @ [20, 3, 3, 2] @ [47, 128, 0]]"
      demo_heap "Some zero_bloom" "Some ''g''"]
  show ?thesis unfolding k k0 by simp
qed

text \<open>
  A ready filter stays ready when the load fails for want of a file name: the check comes
  before the structure is cleared.
\<close>

theorem bloom_load_checks_counterexample:
  "bloom_load demo_layout plenty no_files demo_heap (Some demo_bloom) (Some [])
     = (1, Some demo_bloom, demo_heap) \<and> ready demo_bloom"
  by (simp add: bloom_load_def demo_bloom_def)

text \<open>
  C8 (two-file load), as amended. \<open>bloom_loadcustom\<close> returns 0 when the load succeeds and 1
  for every cause of failure. Without a file name, or with a file missing, the filter and
  the heap are as before the call. When the allocation fails the filter is all zero and
  the heap as before. When the buffer file is short the filter is all zero, the block that
  was allocated is freed, and the live blocks are those before the call. For a short
  metadata file the heap is as before; nothing is stated about the filter.
\<close>

theorem loadcustom_failure:
  fixes L :: "'f::zero layout" and can_alloc :: "nat \<Rightarrow> bool" and fs :: files and h :: heap
    and bloom :: "'f bloom" and filename :: "string option"
  defines "r \<equiv> bloom_loadcustom L can_alloc fs h bloom filename"
  defines "cause \<equiv> loadcustom_cause L can_alloc fs filename"
  assumes sized: "layout_sized L"
  shows "(cause = Loaded \<longrightarrow> fst r = 0) \<and> (cause \<noteq> Loaded \<longrightarrow> fst r = 1) \<and>
    (cause = NoName \<or> cause = MissingFile \<longrightarrow> snd r = (bloom, h)) \<and>
    (cause = ShortMetadata \<longrightarrow> snd (snd r) = h) \<and>
    (cause = NoMemory \<longrightarrow> snd r = (zero_bloom, h)) \<and>
    (cause = ShortBuffer \<longrightarrow> snd r = (zero_bloom, h @ [None]) \<and>
       block (h @ [None]) (Suc (length h)) = None \<and> live_blocks (h @ [None]) = live_blocks h)"
proof (cases filename)
  case None
  then show ?thesis by (simp add: r_def cause_def bloom_loadcustom_def loadcustom_cause_def)
next
  case (Some name)
  show ?thesis
  proof (cases "name = []")
    case True
    with Some show ?thesis
      by (simp add: r_def cause_def bloom_loadcustom_def loadcustom_cause_def)
  next
    case name: False
    show ?thesis
    proof (cases "fs (take 67 (name @ ''.blm''))")
      case None
      with Some name show ?thesis
        by (simp add: r_def cause_def bloom_loadcustom_def loadcustom_cause_def)
    next
      case str: (Some m)
      show ?thesis
      proof (cases "fs (take 67 (name @ ''.dat''))")
        case None
        with Some name str show ?thesis
          by (simp add: r_def cause_def bloom_loadcustom_def loadcustom_cause_def)
      next
        case dat: (Some d)
        have "block (h @ [None]) (Suc (length h)) = None" by (simp add: block_def)
        with bloom_loadcustom_opened [where L = L and name = name and fs = fs and m = m
            and d = d and can_alloc = can_alloc and h = h and bloom = bloom,
            OF sized name str dat] Some
        show ?thesis by (auto simp: r_def cause_def live_blocks_append_None)
      qed
    qed
  qed
qed

theorem loadcustom_failure_witness:
  "bloom_loadcustom demo_layout (\<lambda>n. True) [''f.blm'' \<mapsto> [20, 3, 3, 2], ''f.dat'' \<mapsto> [1, 2]]
     demo_heap demo_bloom (Some ''f'') = (1, zero_bloom, [Some [0, 0, 0], None]) \<and>
   bloom_loadcustom demo_layout (\<lambda>n. True) Map.empty demo_heap demo_bloom None
     = (1, demo_bloom, demo_heap)"
proof -
  let ?fs = "[''f.blm'' \<mapsto> [20, 3, 3, 2], ''f.dat'' \<mapsto> [1 :: u8, 2]]"
  have s: "layout_sized demo_layout" by (simp add: layout_sized_def demo_layout_def)
  have c: "loadcustom_cause demo_layout (\<lambda>n. True) ?fs (Some ''f'') = ShortBuffer"
    by (simp add: loadcustom_cause_def demo_layout_def Let_def)
  have n: "loadcustom_cause demo_layout (\<lambda>n. True) Map.empty None = NoName"
    by (simp add: loadcustom_cause_def)
  from loadcustom_failure [OF s, of "\<lambda>n. True" ?fs "Some ''f''" demo_heap demo_bloom]
  have "fst (bloom_loadcustom demo_layout (\<lambda>n. True) ?fs demo_heap demo_bloom (Some ''f'')) = 1"
    and "snd (bloom_loadcustom demo_layout (\<lambda>n. True) ?fs demo_heap demo_bloom (Some ''f''))
      = (zero_bloom, demo_heap @ [None])"
    unfolding c by simp_all
  then have 1: "bloom_loadcustom demo_layout (\<lambda>n. True) ?fs demo_heap demo_bloom (Some ''f'')
      = (1, zero_bloom, [Some [0, 0, 0], None])"
    by (simp add: prod_eq_iff demo_heap_def)
  from loadcustom_failure [OF s, of "\<lambda>n. True" Map.empty None demo_heap demo_bloom]
  have "fst (bloom_loadcustom demo_layout (\<lambda>n. True) Map.empty demo_heap demo_bloom None) = 1"
    and "snd (bloom_loadcustom demo_layout (\<lambda>n. True) Map.empty demo_heap demo_bloom None)
      = (demo_bloom, demo_heap)"
    unfolding n by simp_all
  then have 2: "bloom_loadcustom demo_layout (\<lambda>n. True) Map.empty demo_heap demo_bloom None
      = (1, demo_bloom, demo_heap)"
    by (simp add: prod_eq_iff)
  from 1 2 show ?thesis by simp
qed

text \<open>
  A failed load does not always leave an unready, zeroed filter: without a file name the
  filter is not touched, and a ready one stays ready.
\<close>

theorem loadcustom_failure_counterexample:
  "bloom_loadcustom demo_layout plenty no_files demo_heap demo_bloom (Some [])
     = (1, demo_bloom, demo_heap) \<and> ready demo_bloom \<and> demo_bloom \<noteq> zero_bloom"
  by (simp add: bloom_loadcustom_def demo_bloom_def zero_bloom_def)

text \<open>
  A short metadata file: the bytes that were read have already replaced the start of the
  structure when the function returns 1, and the structure is not cleared. Here one byte
  changes \<open>bits\<close> of a ready filter and leaves its buffer as it was.
\<close>

lemma loadcustom_short_metadata_example:
  "bloom_loadcustom demo_layout (\<lambda>n. True) [''f.blm'' \<mapsto> [64], ''f.dat'' \<mapsto> []]
     demo_heap demo_bloom (Some ''f'') = (1, demo_bloom\<lparr>bits := 64\<rparr>, demo_heap) \<and>
   ready (demo_bloom\<lparr>bits := 64\<rparr>)"
  by (simp add: bloom_loadcustom_def fread_def demo_layout_def demo_bloom_def)

text \<open>
  C6 (save and load). In the variant of \<open>bloom_save\<close> that is compiled with \<^verbatim>\<open>WIN64\<close> the
  first write passes the ten bytes of \<^verbatim>\<open>sizeof(BLOOM_MAGIC)\<close> and its count is compared with
  the nine of \<^verbatim>\<open>strlen(BLOOM_MAGIC)\<close>. Whatever the filter, the file name, the room on the
  disk and the buffering of the stream, that variant returns 1: no filter is ever saved in
  the single-file format, and none can be loaded back.
\<close>

theorem save_win64_never_succeeds:
  "\<exists>fs'. bloom_save True L can_create capacity io fs h bloom filename = Inr (1, fs')"
proof (cases filename)
  case None
  then show ?thesis by (simp add: bloom_save_def)
next
  case (Some name)
  show ?thesis
  proof (cases "name = [] \<or> \<not> can_create name")
    case True
    with Some show ?thesis by (auto simp: bloom_save_def fopen_wb_def)
  next
    case False
    show ?thesis
    proof (cases io)
      case (Buffered extra keep)
      with Some False show ?thesis
        by (simp add: bloom_save_def fopen_wb_def fwrite_def buffer_room_def)
    next
      case Unbuffered
      have w1: "fwrite Unbuffered capacity fs0 (name, 0, []) (BLOOM_MAGIC @ [0]) =
          (min 10 (capacity name), snd (write_fd capacity fs0 name 0 (BLOOM_MAGIC @ [0])),
           (name, min 10 (capacity name), []))" for fs0
        using fwrite_unbuffered [of "BLOOM_MAGIC @ [0]" capacity fs0 name 0] by simp
      show ?thesis
      proof (cases "capacity name = 9")
        case True
        have w2: "fwrite Unbuffered capacity fs1 (name, 9, []) (u16_bytes size) =
            (0, snd (write_fd capacity fs1 name 9 (u16_bytes size)), (name, 9, []))" for fs1 size
          using fwrite_unbuffered [of "u16_bytes size" capacity fs1 name 9] True
          by (simp add: u16_bytes_def)
        from Some False Unbuffered True show ?thesis
          by (simp add: bloom_save_def fopen_wb_def w1 w2 Let_def)
      next
        case nine: False
        then have "min 10 (capacity name) \<noteq> 9" by linarith
        with Some False Unbuffered show ?thesis
          by (simp add: bloom_save_def fopen_wb_def w1 Let_def)
      qed
    qed
  qed
qed

text \<open>
  What is left behind is the magic string and a zero byte, with a buffered stream as well
  as with an unbuffered one; \<open>bloom_load\<close> reads the magic string, finds one byte where the
  size field should be, and returns 6.
\<close>

lemma save_win64_then_load:
  "bloom_save True demo_layout (\<lambda>p. True) (\<lambda>p. 1000) Unbuffered Map.empty demo_heap demo_bloom
     (Some ''f'') = Inr (1, [''f'' \<mapsto> BLOOM_MAGIC @ [0]])"
  "bloom_save True demo_layout (\<lambda>p. True) (\<lambda>p. 1000) (Buffered 0 (\<lambda>held n. 0)) Map.empty
     demo_heap demo_bloom (Some ''f'') = Inr (1, [''f'' \<mapsto> BLOOM_MAGIC @ [0]])"
  "bloom_load demo_layout (\<lambda>n. True) [''f'' \<mapsto> BLOOM_MAGIC @ [0]] [] (Some zero_bloom) (Some ''f'')
     = (6, Some zero_bloom, [])"
  by (simp_all add: bloom_save_def bloom_load_def fopen_wb_def fwrite_def fclose_def
      buffer_room_def buffer_keeps_def write_fd_def file_bytes_def fread_def load_error_def
      Let_def)

text \<open>
  The other variant of \<open>bloom_save\<close>, and the two-file format, do round-trip. For a layout
  that gives every structure an image of \<open>sizeof_bloom\<close> bytes from which this filter can be
  read back, a ready filter, and enough room and memory, saving succeeds and loading
  returns 0 with the same fields and a fresh buffer of the same bytes. (The two file names
  of the two-file format must differ, which they do unless the base name has 66 characters
  or more.) A filter loaded that way answers every query as the saved one did.
\<close>

lemma save_load_roundtrip_posix:
  fixes L :: "'f::zero layout"
  assumes sized: "layout_sized L"
    and image: "of_bytes L (to_bytes L bloom) = bloom"
    and small: "sizeof_bloom L < 65536"
    and name: "name \<noteq> []" "can_create name"
    and room: "11 + sizeof_bloom L + unat (bytes bloom) \<le> capacity name"
    and filter: "ready_filter bloom h buf"
    and version: "major bloom = 2"
    and mem: "can_alloc (unat (bytes bloom))"
  shows "\<exists>fs'. bloom_save False L can_create capacity io fs h bloom (Some name) = Inr (0, fs') \<and>
    bloom_load L can_alloc fs' h2 (Some b0) (Some name) =
      (0, Some (bloom\<lparr>bf := Suc (length h2)\<rparr>), h2 @ [Some buf])"
proof -
  from filter have buf: "block h (bf bloom) = Some buf" and len: "length buf = unat (bytes bloom)"
    by (simp_all add: ready_filter_def)
  from len have le: "unat (bytes bloom) \<le> length buf" by simp
  from bloom_save_posix [where L = L and name = name and can_create = can_create
      and capacity = capacity and bloom = bloom and h = h and buf = buf and fs = fs and io = io,
      OF sized name room buf le]
  obtain rest where s: "bloom_save False L can_create capacity io fs h bloom (Some name) =
      Inr (0, fs(name \<mapsto> BLOOM_MAGIC @ u16_bytes (of_nat (sizeof_bloom L)) @ to_bytes L bloom @
        take (unat (bytes bloom)) buf @ rest))"
    by blast
  let ?fs = "fs(name \<mapsto> BLOOM_MAGIC @ u16_bytes (of_nat (sizeof_bloom L)) @ to_bytes L bloom @
        take (unat (bytes bloom)) buf @ rest)"
  have f: "?fs name = Some (BLOOM_MAGIC @ u16_bytes (of_nat (sizeof_bloom L)) @ to_bytes L bloom @
        take (unat (bytes bloom)) buf @ rest)"
    by simp
  have d: "length (take (unat (bytes bloom)) buf) = unat (bytes bloom)" using len by simp
  from bloom_load_saved [where L = L and bloom = bloom and name = name and fs = ?fs
      and data = "take (unat (bytes bloom)) buf" and rest = rest and can_alloc = can_alloc
      and h = h2 and ?b0.0 = b0, OF sized image small name(1) f d version mem] len s
  show ?thesis by auto
qed

lemma savecustom_loadcustom_roundtrip:
  fixes L :: "'f::zero layout"
  assumes sized: "layout_sized L"
    and image: "of_bytes L (to_bytes L bloom) = bloom"
    and name: "name \<noteq> []"
    and names: "take 67 (name @ ''.blm'') \<noteq> take 67 (name @ ''.dat'')"
    and create: "can_create (take 67 (name @ ''.blm''))" "can_create (take 67 (name @ ''.dat''))"
    and room: "sizeof_bloom L \<le> capacity (take 67 (name @ ''.blm''))"
      "unat (bytes bloom) \<le> capacity (take 67 (name @ ''.dat''))"
    and filter: "ready_filter bloom h buf"
    and mem: "can_alloc (unat (bytes bloom))"
  shows "\<exists>fs'. bloom_savecustom L can_create capacity io fs h bloom (Some name) = Inr (0, fs') \<and>
    bloom_loadcustom L can_alloc fs' h2 b0 (Some name) =
      (0, bloom\<lparr>bf := Suc (length h2)\<rparr>, h2 @ [Some buf])"
proof -
  from filter have buf: "block h (bf bloom) = Some buf" and len: "length buf = unat (bytes bloom)"
    by (simp_all add: ready_filter_def)
  have img: "length (to_bytes L b) = sizeof_bloom L" for b
    using sized by (simp add: layout_sized_def)
  define str where "str = take 67 (name @ ''.blm'')"
  define dat where "dat = take 67 (name @ ''.dat'')"
  note paths = str_def [symmetric] dat_def [symmetric]
  have ne: "str \<noteq> dat" "dat \<noteq> str" using names by (auto simp only: paths)
  have cr: "can_create str" "can_create dat" using create by (simp_all only: paths)
  let ?i = "to_bytes L bloom"
  let ?fs0 = "fs(str \<mapsto> [], dat \<mapsto> [])"
  have rb: "read_bytes h (bf bloom) (unat (bytes bloom)) = Some buf"
    using buf len by (simp add: read_bytes_def)
  have ri: "length ?i \<le> capacity str" using room(1) by (simp only: paths img)
  have rd: "length buf \<le> capacity dat" using room(2) by (simp only: paths len)
  have e0: "?fs0 str = Some []" using ne by simp
  from fwrite_fresh [where capacity = capacity and path = str and fs = ?fs0 and io = io
      and bs = ?i, OF ri e0]
  obtain k1 where k1: "k1 \<le> length ?i"
    and w1: "fwrite io capacity ?fs0 (str, 0, []) ?i =
      (length ?i, ?fs0(str \<mapsto> take k1 ?i), (str, k1, drop k1 ?i))"
    by blast
  let ?fs1 = "?fs0(str \<mapsto> take k1 ?i)"
  have e1: "?fs1 dat = Some []" using ne by simp
  from fwrite_fresh [where capacity = capacity and path = dat and fs = ?fs1 and io = io
      and bs = buf, OF rd e1]
  obtain k2 where k2: "k2 \<le> length buf"
    and w2: "fwrite io capacity ?fs1 (dat, 0, []) buf =
      (length buf, ?fs1(dat \<mapsto> take k2 buf), (dat, k2, drop k2 buf))"
    by blast
  let ?fs2 = "?fs1(dat \<mapsto> take k2 buf)"
  have e2: "?fs2 str = Some (take k1 ?i)" using ne by simp
  have c1: "fclose capacity ?fs2 (str, k1, drop k1 ?i) = ?fs2(str \<mapsto> ?i)"
    by (rule fclose_rest [where capacity = capacity and path = str and fs = ?fs2 and bs = ?i
          and k = k1, OF ri e2 k1])
  let ?fs3 = "?fs2(str \<mapsto> ?i)"
  have e3: "?fs3 dat = Some (take k2 buf)" using ne by simp
  have c2: "fclose capacity ?fs3 (dat, k2, drop k2 buf) = ?fs3(dat \<mapsto> buf)"
    by (rule fclose_rest [where capacity = capacity and path = dat and fs = ?fs3 and bs = buf
          and k = k2, OF rd e3 k2])
  let ?fs4 = "?fs3(dat \<mapsto> buf)"
  have s: "bloom_savecustom L can_create capacity io fs h bloom (Some name) = Inr (0, ?fs4)"
    apply (simp only: bloom_savecustom_def option.case name if_False Let_def)
    apply (simp only: paths)
    apply (simp only: fopen_wb_def cr if_True split_conv option.case w1 img)
    apply (simp only: rb option.case)
    apply (simp only: w2 split_conv len [symmetric] c1 c2)
    apply simp
    done
  have l: "bloom_loadcustom L can_alloc ?fs4 h2 b0 (Some name) =
      (0, bloom\<lparr>bf := Suc (length h2)\<rparr>, h2 @ [Some buf])"
    apply (simp only: bloom_loadcustom_def option.case name if_False Let_def)
    apply (simp only: paths)
    using mem len ne apply (simp add: fread_def img image alloc_def alloc_write_all)
    done
  from s l show ?thesis by blast
qed

lemma loaded_filter_queries:
  assumes "ready_filter bloom h buf"
  shows "ready_filter (bloom\<lparr>bf := Suc (length h2)\<rparr>) (h2 @ [Some buf]) buf \<and>
    map_sum id fst (bloom_check XXH64 (bloom\<lparr>bf := Suc (length h2)\<rparr>) (h2 @ [Some buf]) data)
      = map_sum id fst (bloom_check XXH64 bloom h data)"
proof -
  from assms have rf: "ready_filter (bloom\<lparr>bf := Suc (length h2)\<rparr>) (h2 @ [Some buf]) buf"
    by (simp add: ready_filter_def block_def)
  have i: "bloom_indices XXH64 (bloom\<lparr>bf := Suc (length h2)\<rparr>) data = bloom_indices XXH64 bloom data"
    by (simp add: bloom_indices_def)
  from ready_filter_check [OF rf, of XXH64 data] ready_filter_check [OF assms, of XXH64 data] rf
  show ?thesis by (simp add: i)
qed

text \<open>Both round trips on the demo filter, with the layout of four bytes.\<close>

lemma roundtrip_examples:
  "\<exists>fs'. bloom_save False demo_layout (\<lambda>p. True) (\<lambda>p. 1000) Unbuffered Map.empty
       [Some [47, 128, 0]] demo_bloom (Some ''f'') = Inr (0, fs') \<and>
     bloom_load demo_layout (\<lambda>n. True) fs' [] (Some zero_bloom) (Some ''f'') =
       (0, Some demo_bloom, [Some [47, 128, 0]])"
  "\<exists>fs'. bloom_savecustom demo_layout (\<lambda>p. True) (\<lambda>p. 1000) (Buffered 0 (\<lambda>held n. 0)) Map.empty
       [Some [47, 128, 0]] demo_bloom (Some ''f'') = Inr (0, fs') \<and>
     bloom_loadcustom demo_layout (\<lambda>n. True) fs' [] zero_bloom (Some ''f'') =
       (0, demo_bloom, [Some [47, 128, 0]])"
proof -
  have s: "layout_sized demo_layout" by (simp add: layout_sized_def demo_layout_def)
  have i: "of_bytes demo_layout (to_bytes demo_layout demo_bloom) = demo_bloom"
    by (simp add: demo_layout_def demo_bloom_def)
  have f: "ready_filter demo_bloom [Some [47, 128, 0]] [47, 128, 0]"
    by (simp add: ready_filter_def demo_bloom_def block_def)
  have v: "major demo_bloom = 2" "demo_bloom\<lparr>bf := Suc 0\<rparr> = demo_bloom"
    "sizeof_bloom demo_layout = 4" "unat (bytes demo_bloom) = 3"
    by (simp_all add: demo_bloom_def demo_layout_def)
  from save_load_roundtrip_posix [where L = demo_layout and bloom = demo_bloom and name = "''f''"
      and can_create = "\<lambda>p. True" and capacity = "\<lambda>p. 1000" and h = "[Some [47, 128, 0]]"
      and buf = "[47, 128, 0]" and can_alloc = "\<lambda>n. True" and fs = Map.empty and ?h2.0 = "[]"
      and ?b0.0 = zero_bloom and io = Unbuffered, OF s i _ _ _ _ f v(1)]
  show "\<exists>fs'. bloom_save False demo_layout (\<lambda>p. True) (\<lambda>p. 1000) Unbuffered Map.empty
       [Some [47, 128, 0]] demo_bloom (Some ''f'') = Inr (0, fs') \<and>
     bloom_load demo_layout (\<lambda>n. True) fs' [] (Some zero_bloom) (Some ''f'') =
       (0, Some demo_bloom, [Some [47, 128, 0]])"
    by (simp add: v)
  from savecustom_loadcustom_roundtrip [where L = demo_layout and bloom = demo_bloom
      and name = "''f''" and can_create = "\<lambda>p. True" and capacity = "\<lambda>p. 1000"
      and h = "[Some [47, 128, 0]]" and buf = "[47, 128, 0]" and can_alloc = "\<lambda>n. True"
      and fs = Map.empty and ?h2.0 = "[]" and ?b0.0 = zero_bloom
      and io = "Buffered 0 (\<lambda>held n. 0)", OF s i _ _ _ _ _ _ f]
  show "\<exists>fs'. bloom_savecustom demo_layout (\<lambda>p. True) (\<lambda>p. 1000) (Buffered 0 (\<lambda>held n. 0))
       Map.empty [Some [47, 128, 0]] demo_bloom (Some ''f'') = Inr (0, fs') \<and>
     bloom_loadcustom demo_layout (\<lambda>n. True) fs' [] zero_bloom (Some ''f'') =
       (0, demo_bloom, [Some [47, 128, 0]])"
    by (simp add: v)
qed

text \<open>
  On a full disk the two-file save depends on the buffering: an unbuffered stream reports
  the short write and the process exits; a buffered one reports every byte as written,
  the bytes are lost when the streams are closed, and the function returns 0 with two
  empty files.
\<close>

lemma savecustom_full_disk_example:
  "bloom_savecustom demo_layout (\<lambda>p. True) (\<lambda>p. 0) Unbuffered Map.empty [Some [47, 128, 0]]
     demo_bloom (Some ''f'') = Inl ProcessExit"
  "bloom_savecustom demo_layout (\<lambda>p. True) (\<lambda>p. 0) (Buffered 0 (\<lambda>held n. 0)) Map.empty
     [Some [47, 128, 0]] demo_bloom (Some ''f'') = Inr (0, [''f.blm'' \<mapsto> [], ''f.dat'' \<mapsto> []])"
  by (simp_all add: bloom_savecustom_def fopen_wb_def fwrite_def fclose_def buffer_room_def
      buffer_keeps_def write_fd_def file_bytes_def read_bytes_def block_def demo_layout_def
      demo_bloom_def Let_def)

end
